theory Spec2Isabelle
  imports Complex_Main
begin

section \<open>Data model (types.ts)\<close>

text \<open>
  A shallow embedding of the pose evaluation pipeline of \<^verbatim>\<open>utils.ts\<close>:
  \<^verbatim>\<open>evaluateDrivers\<close>, \<^verbatim>\<open>constrainRotation\<close>, \<^verbatim>\<open>calculateFK\<close>, \<^verbatim>\<open>solveIK\<close>,
  \<^verbatim>\<open>getInterpolatedValue\<close> and \<^verbatim>\<open>applyAnimation\<close>.

  JavaScript numbers are embedded as \<^typ>\<open>real\<close>: rounding, NaN and the infinities of
  IEEE doubles are not modelled, and \<^verbatim>\<open>Math.cos\<close>, \<^verbatim>\<open>Math.sin\<close>, \<^verbatim>\<open>Math.PI\<close> are the
  real \<^const>\<open>cos\<close>, \<^const>\<open>sin\<close>, \<^const>\<open>pi\<close>. Field names that clash with HOL constants or
  with keywords carry a suffix (\<open>idB\<close>, \<open>lengthB\<close>, \<open>xB\<close>, \<open>yB\<close>, \<open>minC\<close>, \<open>maxC\<close>,
  \<open>typeC\<close>, \<open>valueK\<close>, \<open>xV\<close>, \<open>yV\<close>). Optional fields (\<^verbatim>\<open>min?: number\<close>) are options.
\<close>

record Vector2 =
  xV :: real
  yV :: real

datatype ConstraintType = LIMIT_ROTATION | IK_POLE | COPY_TRANSFORM

record Constraint =
  idC :: string
  typeC :: ConstraintType
  targetBoneId :: "string option"
  minC :: "real option"
  maxC :: "real option"
  influence :: real

text \<open>The union \<^verbatim>\<open>'rotation' | 'x' | 'y'\<close> of the driver fields.\<close>

datatype Property = P_rotation | P_x | P_y

record Driver =
  idD :: string
  driverProperty :: Property
  sourceBoneId :: string
  sourceProperty :: Property
  factor :: real
  offset :: real

record Bone =
  idB :: string
  parentId :: "string option"
  name :: string
  lengthB :: real
  rotation :: real
  xB :: real
  yB :: real
  color :: "string option"
  locked :: "bool option"
  visible :: "bool option"
  constraints :: "Constraint list"
  drivers :: "Driver list"

record DerivedBone = Bone +
  worldStart :: Vector2
  worldEnd :: Vector2
  worldRotation :: real

datatype EasingType = E_linear | E_ease_in | E_ease_out | E_ease_in_out | E_bezier

record Keyframe =
  time :: real
  valueK :: real
  easing :: EasingType
  handleLeft :: "Vector2 option"
  handleRight :: "Vector2 option"

text \<open>The union \<^verbatim>\<open>'rotation' | 'x' | 'y' | 'variant'\<close> of \<^verbatim>\<open>Track.property\<close>.\<close>

datatype TrackProperty = T_rotation | T_x | T_y | T_variant

record Track =
  boneId :: string
  property :: TrackProperty
  keyframes :: "Keyframe list"


subsection \<open>Objects and arrays\<close>

text \<open>
  Bones are JavaScript objects, and \<^verbatim>\<open>evaluateDrivers\<close> assigns to their fields. The
  store holds the bone objects; an address is an index into it, a \<^verbatim>\<open>Bone[]\<close> is the
  list of the addresses of its elements, and an object literal \<^verbatim>\<open>{...b, f: v}\<close> allocates
  a new object at the end of the store. \<^verbatim>\<open>DerivedBone\<close> objects are created by
  \<^verbatim>\<open>calculateFK\<close> and never assigned to afterwards, so they are plain values.
\<close>

type_synonym addr = nat
type_synonym store = "Bone list"

text \<open>
  \<^verbatim>\<open>Array.prototype.map\<close> over an array of bone objects, for a callback that reads only
  its argument and returns either a freshly built object (\<open>Some\<close>) or the argument
  itself (\<open>None\<close>).
\<close>

fun array_map :: "(Bone \<Rightarrow> Bone option) \<Rightarrow> addr list \<Rightarrow> store \<Rightarrow> addr list \<times> store" where
  "array_map f [] s = ([], s)"
| "array_map f (a # as) s =
     (case f (s ! a) of
        None \<Rightarrow> (let (r, s') = array_map f as s in (a # r, s'))
      | Some b' \<Rightarrow> (let (r, s') = array_map f as (s @ [b']) in (length s # r, s')))"

section \<open>utils.ts\<close>

definition degToRad :: "real \<Rightarrow> real" where
  "degToRad deg = (deg * pi) / 180"

definition radToDeg :: "real \<Rightarrow> real" where
  "radToDeg rad = (rad * 180) / pi"

subsection \<open>evaluateDrivers\<close>

text \<open>
  The body of \<^verbatim>\<open>targetBone.drivers.forEach(driver => ...)\<close> for the target object at
  address \<open>t\<close> (\<^verbatim>\<open>updatedBones[index]\<close>): the source is the first object of the array
  with the driver's \<^verbatim>\<open>sourceBoneId\<close>, read in the current store, and the result is
  assigned to a field of the target object in place.
\<close>

definition applyDriver :: "addr list \<Rightarrow> addr \<Rightarrow> store \<Rightarrow> Driver \<Rightarrow> store" where
  "applyDriver updatedBones t s driver =
     (case find (\<lambda>a. idB (s ! a) = sourceBoneId driver) updatedBones of
        None \<Rightarrow> s
      | Some src \<Rightarrow>
          (let sourceBone = s ! src;
               inputVal = (case sourceProperty driver of
                             P_rotation \<Rightarrow> rotation sourceBone
                           | P_x \<Rightarrow> xB sourceBone
                           | P_y \<Rightarrow> yB sourceBone);
               outputVal = inputVal * factor driver + offset driver
           in (case driverProperty driver of
                 P_rotation \<Rightarrow> s[t := (s ! t)\<lparr>rotation := outputVal\<rparr>]
               | P_x \<Rightarrow> s[t := (s ! t)\<lparr>xB := outputVal\<rparr>]
               | P_y \<Rightarrow> s[t := (s ! t)\<lparr>yB := outputVal\<rparr>])))"

text \<open>
  One callback of \<^verbatim>\<open>updatedBones.forEach((targetBone, index) => ...)\<close>. The guard
  \<^verbatim>\<open>if (!targetBone.drivers) return\<close> is for a missing array; \<^verbatim>\<open>drivers\<close> is a required
  field of \<^verbatim>\<open>Bone\<close>, and an empty array has no callbacks.
\<close>

definition driveBone :: "addr list \<Rightarrow> store \<Rightarrow> addr \<Rightarrow> store" where
  "driveBone updatedBones s t = foldl (applyDriver updatedBones t) s (drivers (s ! t))"

text \<open>One pass over the array, in array order.\<close>

definition driverPass :: "addr list \<Rightarrow> store \<Rightarrow> store" where
  "driverPass updatedBones s = foldl (driveBone updatedBones) s updatedBones"

text \<open>
  \<^verbatim>\<open>const updatedBones = [...bones]\<close> copies the array, not the objects: the new array
  holds the same addresses. The loop \<^verbatim>\<open>for (pass = 0; pass < 2; pass++)\<close> is unrolled.
\<close>

definition evaluateDrivers :: "store \<Rightarrow> addr list \<Rightarrow> addr list \<times> store" where
  "evaluateDrivers s bones =
     (let updatedBones = bones;
          s1 = driverPass updatedBones s;
          s2 = driverPass updatedBones s1
      in (updatedBones, s2))"

subsection \<open>constrainRotation\<close>

text \<open>The loop \<^verbatim>\<open>while (v > 180) v -= 360\<close>.\<close>

function while_sub360 :: "real \<Rightarrow> real" where
  "while_sub360 v = (if v > 180 then while_sub360 (v - 360) else v)"
  by pat_completeness auto
termination
proof (relation "measure (\<lambda>v. nat \<lceil>(v - 180) / 360\<rceil>)")
  show "wf (measure (\<lambda>v::real. nat \<lceil>(v - 180) / 360\<rceil>))" by simp
next
  fix v :: real assume h: "180 < v"
  have "(v - 360 - 180) / 360 = (v - 180) / 360 - 1" by (simp add: field_simps)
  then have e: "\<lceil>(v - 360 - 180) / 360\<rceil> = \<lceil>(v - 180) / 360\<rceil> - 1"
    by (metis ceiling_diff_one)
  have p: "0 < \<lceil>(v - 180) / 360\<rceil>" using h by simp
  have "nat \<lceil>(v - 360 - 180) / 360\<rceil> < nat \<lceil>(v - 180) / 360\<rceil>"
    using e p by linarith
  then show "(v - 360, v) \<in> measure (\<lambda>v. nat \<lceil>(v - 180) / 360\<rceil>)"
    by (simp only: in_measure)
qed

text \<open>The loop \<^verbatim>\<open>while (v < -180) v += 360\<close>.\<close>

function while_add360 :: "real \<Rightarrow> real" where
  "while_add360 v = (if v < -180 then while_add360 (v + 360) else v)"
  by pat_completeness auto
termination
proof (relation "measure (\<lambda>v. nat \<lceil>(- 180 - v) / 360\<rceil>)")
  show "wf (measure (\<lambda>v::real. nat \<lceil>(- 180 - v) / 360\<rceil>))" by simp
next
  fix v :: real assume h: "v < - 180"
  have "(- 180 - (v + 360)) / 360 = (- 180 - v) / 360 - 1" by (simp add: field_simps)
  then have e: "\<lceil>(- 180 - (v + 360)) / 360\<rceil> = \<lceil>(- 180 - v) / 360\<rceil> - 1"
    by (metis ceiling_diff_one)
  have p: "0 < \<lceil>(- 180 - v) / 360\<rceil>" using h by simp
  have "nat \<lceil>(- 180 - (v + 360)) / 360\<rceil> < nat \<lceil>(- 180 - v) / 360\<rceil>"
    using e p by linarith
  then show "(v + 360, v) \<in> measure (\<lambda>v. nat \<lceil>(- 180 - v) / 360\<rceil>)"
    by (simp only: in_measure)
qed

text \<open>The value of \<open>v\<close> after both loops, before the comparison with the bounds.\<close>

definition normalizeRotation :: "real \<Rightarrow> real" where
  "normalizeRotation val = while_add360 (while_sub360 val)"

definition constrainRotation :: "real \<Rightarrow> real option \<Rightarrow> real option \<Rightarrow> real" where
  "constrainRotation val mn mx =
     (let v = normalizeRotation val
      in if mn \<noteq> None \<and> v < the mn then the mn
         else if mx \<noteq> None \<and> v > the mx then the mx
         else v)"

text \<open>
  The block \<^verbatim>\<open>if (b.constraints) { const limit = b.constraints.find(c => c.type ===
  'LIMIT_ROTATION'); if (limit) rot = constrainRotation(rot, limit.min, limit.max); }\<close>,
  which \<^verbatim>\<open>processBone\<close> and \<^verbatim>\<open>solveIK\<close> both contain.
\<close>

definition limitRotation :: "Constraint list \<Rightarrow> real \<Rightarrow> real" where
  "limitRotation cs rot =
     (case find (\<lambda>c. typeC c = LIMIT_ROTATION) cs of
        None \<Rightarrow> rot
      | Some limit \<Rightarrow> constrainRotation rot (minC limit) (maxC limit))"

subsection \<open>calculateFK\<close>

text \<open>
  The body of \<^verbatim>\<open>processBone\<close> up to the construction of \<^verbatim>\<open>derivedBone\<close>; the parent
  is absent for a root.
\<close>

definition deriveBone :: "Bone \<Rightarrow> DerivedBone option \<Rightarrow> DerivedBone" where
  "deriveBone bone parent =
     (let rot = limitRotation (constraints bone) (rotation bone);
          startX = (case parent of Some p \<Rightarrow> xV (worldEnd p) | None \<Rightarrow> xB bone);
          startY = (case parent of Some p \<Rightarrow> yV (worldEnd p) | None \<Rightarrow> yB bone);
          parentRot = (case parent of Some p \<Rightarrow> worldRotation p | None \<Rightarrow> 0);
          worldRot = parentRot + rot;
          angleRad = degToRad worldRot;
          endX = startX + cos angleRad * lengthB bone;
          endY = startY + sin angleRad * lengthB bone
      in (Bone.extend bone
            (DerivedBone.fields \<lparr>xV = startX, yV = startY\<rparr> \<lparr>xV = endX, yV = endY\<rparr> worldRot))
         \<lparr>rotation := rot\<rparr>)"

text \<open>The two variables \<^verbatim>\<open>derived\<close> and \<^verbatim>\<open>result\<close> that \<^verbatim>\<open>processBone\<close> closes over.\<close>

record fk_state =
  derived :: "string \<rightharpoonup> DerivedBone"
  result :: "DerivedBone list"

text \<open>
  \<^verbatim>\<open>processBone\<close> calls itself for every child, and on an array with repeated ids it
  can call itself forever. The first argument bounds the depth of the calls (the call
  stack): \<open>None\<close> is the call that never returns normally. \<open>forEachBone\<close> is
  \<^verbatim>\<open>xs.forEach(b => processBone(b, parent))\<close> over an already filtered list.
\<close>

fun processBone :: "nat \<Rightarrow> Bone list \<Rightarrow> Bone \<Rightarrow> DerivedBone option \<Rightarrow> fk_state \<Rightarrow> fk_state option"
  and forEachBone :: "nat \<Rightarrow> Bone list \<Rightarrow> Bone list \<Rightarrow> DerivedBone option \<Rightarrow> fk_state \<Rightarrow> fk_state option"
where
  "processBone 0 drivenBones bone parent st = None"
| "processBone (Suc n) drivenBones bone parent st =
     (let derivedBone = deriveBone bone parent;
          st' = st\<lparr>derived := (derived st)(idB bone \<mapsto> derivedBone),
                   result := result st @ [derivedBone]\<rparr>
      in forEachBone n drivenBones
           (filter (\<lambda>b. parentId b = Some (idB bone)) drivenBones) (Some derivedBone) st')"
| "forEachBone n drivenBones [] parent st = Some st"
| "forEachBone n drivenBones (b # bs) parent st =
     (case processBone n drivenBones b parent st of
        None \<Rightarrow> None
      | Some st' \<Rightarrow> forEachBone n drivenBones bs parent st')"

text \<open>
  \<^verbatim>\<open>calculateFK\<close> with call depth at most \<open>n\<close>. The drivers are evaluated first, on the
  objects of the array; the traversal then only reads them. The store is returned beside
  the result, as \<^verbatim>\<open>evaluateDrivers\<close> has run when the traversal starts. The guard
  \<^verbatim>\<open>if (!bones) return []\<close> is for a missing array, which the type \<^verbatim>\<open>Bone[]\<close> excludes.
\<close>

definition calculateFK :: "nat \<Rightarrow> store \<Rightarrow> addr list \<Rightarrow> DerivedBone list option \<times> store" where
  "calculateFK n s bones =
     (let (arr, s') = evaluateDrivers s bones;
          drivenBones = map (\<lambda>a. s' ! a) arr
      in (map_option result
            (forEachBone n drivenBones (filter (\<lambda>b. parentId b = None) drivenBones) None
               \<lparr>derived = Map.empty, result = []\<rparr>),
          s'))"

subsection \<open>solveIK\<close>

text \<open>
  \<^verbatim>\<open>Math.atan2(y, x)\<close> is a library function; on the reals (no signed zero) it is the
  angle of the point \<open>(x, y)\<close> in \<open>[-\<pi>, \<pi>]\<close>, and \<open>0\<close> at the origin.
\<close>

definition atan2 :: "real \<Rightarrow> real \<Rightarrow> real" where
  "atan2 y x =
     (if x > 0 then arctan (y / x)
      else if x < 0 \<and> y \<ge> 0 then arctan (y / x) + pi
      else if x < 0 \<and> y < 0 then arctan (y / x) - pi
      else if y > 0 then pi / 2
      else if y < 0 then - pi / 2
      else 0)"

text \<open>
  The loop \<^verbatim>\<open>while (currentId && depth < 4)\<close> that builds the chain; the empty
  string and \<^verbatim>\<open>null\<close> are the falsy values of \<^verbatim>\<open>currentId\<close>.
\<close>

function buildChain :: "store \<Rightarrow> addr list \<Rightarrow> string option \<Rightarrow> nat \<Rightarrow> string list \<Rightarrow> string list" where
  "buildChain s bones currentId depth chain =
     (if currentId \<noteq> None \<and> currentId \<noteq> Some [] \<and> depth < 4
      then (let chain' = chain @ [the currentId];
                b = find (\<lambda>a. idB (s ! a) = the currentId) bones;
                currentId' = (case b of Some a \<Rightarrow> parentId (s ! a) | None \<Rightarrow> None)
            in buildChain s bones currentId' (depth + 1) chain')
      else chain)"
  by pat_completeness auto
termination
  by (relation "measure (\<lambda>(s, bones, currentId, depth, chain). 4 - depth)") auto

text \<open>
  The body of \<^verbatim>\<open>for (const boneId of chain)\<close>. \<^verbatim>\<open>continue\<close> leaves the array as it
  is, but the store is the one \<^verbatim>\<open>calculateFK\<close> left. The callback of
  \<^verbatim>\<open>newBones.map\<close> returns a new object for an unlocked bone with the id \<^verbatim>\<open>boneId\<close> (here \<open>chainBoneId\<close>), and
  its argument otherwise.
\<close>

definition ikStep :: "nat \<Rightarrow> string \<Rightarrow> Vector2 \<Rightarrow> string \<Rightarrow> addr list \<Rightarrow> store \<Rightarrow> addr list option \<times> store" where
  "ikStep n effectorId target chainBoneId newBones s =
     (case calculateFK n s newBones of
        (None, s') \<Rightarrow> (None, s')
      | (Some derivedBones, s') \<Rightarrow>
          (case (find (\<lambda>b. idB b = effectorId) derivedBones,
                 find (\<lambda>b. idB b = chainBoneId) derivedBones) of
             (Some effector, Some currentDerived) \<Rightarrow>
               (let effectorPos = worldEnd effector;
                    originPos = worldStart currentDerived;
                    toEffector = \<lparr>xV = xV effectorPos - xV originPos,
                                  yV = yV effectorPos - yV originPos\<rparr>;
                    toTarget = \<lparr>xV = xV target - xV originPos, yV = yV target - yV originPos\<rparr>;
                    angEffector = atan2 (yV toEffector) (xV toEffector);
                    angTarget = atan2 (yV toTarget) (xV toTarget);
                    angleDiff = radToDeg (angTarget - angEffector);
                    angleDiff = (if angleDiff > 180 then angleDiff - 360 else angleDiff);
                    angleDiff = (if angleDiff < -180 then angleDiff + 360 else angleDiff);
                    (newBones', s'') =
                      array_map
                        (\<lambda>b. if idB b = chainBoneId \<and> locked b \<noteq> Some True
                             then Some (b\<lparr>rotation :=
                                    limitRotation (constraints b) (rotation b + angleDiff)\<rparr>)
                             else None)
                        newBones s'
                in (Some newBones', s''))
           | _ \<Rightarrow> (Some newBones, s')))"

fun forChain :: "nat \<Rightarrow> string \<Rightarrow> Vector2 \<Rightarrow> string list \<Rightarrow> addr list \<Rightarrow> store \<Rightarrow> addr list option \<times> store" where
  "forChain n effectorId target [] newBones s = (Some newBones, s)"
| "forChain n effectorId target (chainBoneId # chain) newBones s =
     (case ikStep n effectorId target chainBoneId newBones s of
        (None, s') \<Rightarrow> (None, s')
      | (Some newBones', s') \<Rightarrow> forChain n effectorId target chain newBones' s')"

text \<open>The loop \<^verbatim>\<open>for (let i = 0; i < iterations; i++)\<close> with \<^verbatim>\<open>iterations = 10\<close>.\<close>

function forIterations :: "nat \<Rightarrow> string \<Rightarrow> Vector2 \<Rightarrow> string list \<Rightarrow> nat \<Rightarrow> addr list \<Rightarrow> store \<Rightarrow> addr list option \<times> store" where
  "forIterations n effectorId target chain i newBones s =
     (if i < 10
      then (case forChain n effectorId target chain newBones s of
              (None, s') \<Rightarrow> (None, s')
            | (Some newBones', s') \<Rightarrow> forIterations n effectorId target chain (i + 1) newBones' s')
      else (Some newBones, s))"
  by pat_completeness auto
termination
  by (relation "measure (\<lambda>(n, effectorId, target, chain, i, newBones, s). 10 - i)") auto

text \<open>
  \<^verbatim>\<open>solveIK\<close>, with the call depth \<open>n\<close> allowed to each \<^verbatim>\<open>calculateFK\<close>;
  \<^verbatim>\<open>let newBones = [...bones]\<close> copies the array, not the objects.
\<close>

definition solveIK :: "nat \<Rightarrow> store \<Rightarrow> addr list \<Rightarrow> string \<Rightarrow> Vector2 \<Rightarrow> addr list option \<times> store" where
  "solveIK n s bones effectorId target =
     (let chain = buildChain s bones (Some effectorId) 0 [];
          newBones = bones
      in forIterations n effectorId target chain 0 newBones s)"

subsection \<open>Easing and getInterpolatedValue\<close>

definition easeLinear :: "real \<Rightarrow> real" where
  "easeLinear t = t"

definition easeIn :: "real \<Rightarrow> real" where
  "easeIn t = t * t"

definition easeOut :: "real \<Rightarrow> real" where
  "easeOut t = t * (2 - t)"

definition easeInOut :: "real \<Rightarrow> real" where
  "easeInOut t = (if t < 0.5 then 2 * t * t else -1 + (4 - 2 * t) * t)"

definition getEasing :: "EasingType \<Rightarrow> real \<Rightarrow> real" where
  "getEasing type t =
     (case type of
        E_ease_in \<Rightarrow> easeIn t
      | E_ease_out \<Rightarrow> easeOut t
      | E_ease_in_out \<Rightarrow> easeInOut t
      | _ \<Rightarrow> easeLinear t)"

text \<open>The loop \<^verbatim>\<open>for (let i = 0; i < keys.length - 1; i++)\<close>; \<open>None\<close> when it falls through.\<close>

function interpLoop :: "Keyframe list \<Rightarrow> real \<Rightarrow> nat \<Rightarrow> real option" where
  "interpLoop keys frame i =
     (if i < length keys - 1
      then (let k1 = keys ! i; k2 = keys ! (i + 1)
            in if frame \<ge> time k1 \<and> frame < time k2
               then (let t = (frame - time k1) / (time k2 - time k1);
                         t = getEasing (easing k1) t
                     in Some (valueK k1 + (valueK k2 - valueK k1) * t))
               else interpLoop keys frame (i + 1))
      else None)"
  by pat_completeness auto
termination
  by (relation "measure (\<lambda>(keys, frame, i). length keys - 1 - i)") auto

text \<open>
  \<^verbatim>\<open>[...track.keyframes].sort((a, b) => a.time - b.time)\<close> is a stable sort by time, as
  \<^const>\<open>sort_key\<close> is. The first guard of the source also covers a missing track or
  array; here it is the empty array. The last case is the \<^verbatim>\<open>return keys[0].value\<close> after
  the loop.
\<close>

definition getInterpolatedValue :: "Track \<Rightarrow> real \<Rightarrow> real option" where
  "getInterpolatedValue track frame =
     (if keyframes track = [] then None
      else (let keys = sort_key time (keyframes track)
            in if frame \<le> time (keys ! 0) then Some (valueK (keys ! 0))
               else if frame \<ge> time (keys ! (length keys - 1))
                    then Some (valueK (keys ! (length keys - 1)))
               else (case interpLoop keys frame 0 of
                       Some v \<Rightarrow> Some v
                     | None \<Rightarrow> Some (valueK (keys ! 0)))))"

subsection \<open>applyAnimation\<close>




section \<open>Notions used in the statements\<close>

text \<open>A bone with its three animated fields set to zero: what \<^verbatim>\<open>evaluateDrivers\<close> never changes.\<close>

definition poseFree :: "Bone \<Rightarrow> Bone" where
  "poseFree b = b\<lparr>rotation := 0, xB := 0, yB := 0\<rparr>"

text \<open>
  The ids from a bone up to a root, following \<^verbatim>\<open>parentId\<close>; and the bones that have such
  a path: a root is rooted, and so is a bone whose parent id is the id of a rooted bone.
\<close>

inductive apath :: "Bone list \<Rightarrow> string list \<Rightarrow> bool" for bs :: "Bone list" where
  apath_root: "b \<in> set bs \<Longrightarrow> parentId b = None \<Longrightarrow> apath bs [idB b]"
| apath_step: "apath bs (p # \<pi>) \<Longrightarrow> b \<in> set bs \<Longrightarrow> parentId b = Some p \<Longrightarrow> apath bs (idB b # p # \<pi>)"

inductive rooted :: "Bone list \<Rightarrow> string \<Rightarrow> bool" for bs :: "Bone list" where
  rooted_root: "b \<in> set bs \<Longrightarrow> parentId b = None \<Longrightarrow> rooted bs (idB b)"
| rooted_child: "rooted bs p \<Longrightarrow> b \<in> set bs \<Longrightarrow> parentId b = Some p \<Longrightarrow> rooted bs (idB b)"

code_pred rooted .

text \<open>
  How an entry of the output of \<^verbatim>\<open>calculateFK\<close> arises: from a bone of the driven array
  and the derived parent that \<^verbatim>\<open>processBone\<close> was called with.
\<close>

definition linked :: "Bone \<Rightarrow> DerivedBone option \<Rightarrow> DerivedBone list \<Rightarrow> bool" where
  "linked b par R = (case par of None \<Rightarrow> parentId b = None
                     | Some pd \<Rightarrow> pd \<in> set R \<and> parentId b = Some (idB pd))"

definition derivedOk :: "Bone list \<Rightarrow> DerivedBone list \<Rightarrow> DerivedBone \<Rightarrow> bool" where
  "derivedOk bs R d = (\<exists>b\<in>set bs. \<exists>par. d = deriveBone b par \<and> linked b par R)"

text \<open>Two stores that hold the same objects up to their \<^verbatim>\<open>locked\<close> flags.\<close>

definition sameButLocked :: "store \<Rightarrow> store \<Rightarrow> bool" where
  "sameButLocked s s2 = (length s2 = length s \<and> (\<forall>a<length s. s2 ! a = (s ! a)\<lparr>locked := locked (s2 ! a)\<rparr>))"

text \<open>
  What \<^verbatim>\<open>solveIK\<close> may change between the input (store \<open>s\<close>, array \<open>bones\<close>) and a
  working state (store \<open>st\<close>, array \<open>nb\<close>): the objects of \<open>s\<close> are as they were, and
  the \<open>i\<close>-th bone of \<open>nb\<close> is the \<open>i\<close>-th input bone up to its rotation, which differs
  only for an unlocked bone with an id of the chain.
\<close>

definition ikFrame :: "store \<Rightarrow> addr list \<Rightarrow> string list \<Rightarrow> addr list \<Rightarrow> store \<Rightarrow> bool" where
  "ikFrame s bones chain nb st =
     (length nb = length bones \<and> length s \<le> length st \<and> (\<forall>a<length s. st ! a = s ! a) \<and>
      (\<forall>a\<in>set nb. a < length st) \<and>
      (\<forall>i<length bones.
         st ! (nb ! i) = (s ! (bones ! i))\<lparr>rotation := rotation (st ! (nb ! i))\<rparr> \<and>
         (rotation (st ! (nb ! i)) \<noteq> rotation (s ! (bones ! i)) \<longrightarrow>
            idB (s ! (bones ! i)) \<in> set chain \<and> locked (s ! (bones ! i)) \<noteq> Some True)))"

section \<open>Example rigs\<close>

text \<open>
  A bone literal in the style of \<^verbatim>\<open>createHumanRig\<close>: id, parent, length, rotation, x, y,
  constraints and drivers; the name is the id and the optional fields are absent.
\<close>

definition mkBone ::
  "string \<Rightarrow> string option \<Rightarrow> real \<Rightarrow> real \<Rightarrow> real \<Rightarrow> real \<Rightarrow> Constraint list \<Rightarrow> Driver list \<Rightarrow> Bone" where
  "mkBone i p len rot x y cs ds =
     \<lparr>idB = i, parentId = p, name = i, lengthB = len, rotation = rot, xB = x, yB = y,
      color = None, locked = None, visible = None, constraints = cs, drivers = ds\<rparr>"

text \<open>The two-bone chain: root at the origin, rotation 0, length 10; child rotation 90, length 5.\<close>

definition chain2 :: store where
  "chain2 = [mkBone ''root'' None 10 0 0 0 [] [],
             mkBone ''child'' (Some ''root'') 5 90 0 0 [] []]"

definition chain2_fk :: "DerivedBone list" where
  "chain2_fk =
     [\<lparr>idB = ''root'', parentId = None, name = ''root'', lengthB = 10, rotation = 0,
       xB = 0, yB = 0, color = None, locked = None, visible = None,
       constraints = [], drivers = [],
       worldStart = \<lparr>xV = 0, yV = 0\<rparr>, worldEnd = \<lparr>xV = 10, yV = 0\<rparr>, worldRotation = 0\<rparr>,
      \<lparr>idB = ''child'', parentId = Some ''root'', name = ''child'', lengthB = 5, rotation = 90,
       xB = 0, yB = 0, color = None, locked = None, visible = None,
       constraints = [], drivers = [],
       worldStart = \<lparr>xV = 10, yV = 0\<rparr>, worldEnd = \<lparr>xV = 10, yV = 5\<rparr>, worldRotation = 90\<rparr>]"

text \<open>The constraint \<^verbatim>\<open>LIMIT_ROTATION{min: -10, max: 130}\<close> of the lower arm of the human rig.\<close>

definition limit130 :: Constraint where
  "limit130 = \<lparr>idC = ''c1'', typeC = LIMIT_ROTATION, targetBoneId = None,
               minC = Some (- 10), maxC = Some 130, influence = 1\<rparr>"

text \<open>One root bone with that constraint and the raw rotation 200.\<close>

definition elbowRig :: store where
  "elbowRig = [mkBone ''arm_l_low'' None 60 200 0 0 [limit130] []]"


text \<open>The track with keyframes at time 0 (value 10) and time 10 (value 20), linear easing.\<close>

definition track10 :: Track where
  "track10 = \<lparr>boneId = ''root'', property = T_rotation, keyframes =
     [\<lparr>time = 0, valueK = 10, easing = E_linear, handleLeft = None, handleRight = None\<rparr>,
      \<lparr>time = 10, valueK = 20, easing = E_linear, handleLeft = None, handleRight = None\<rparr>]\<rparr>"

text \<open>
  The driver of the affine-law example: \<^verbatim>\<open>rotation = source.rotation * 0.5 + 10\<close>, with the
  bone \<^verbatim>\<open>a\<close> as source.
\<close>

definition halfDriver :: Driver where
  "halfDriver = \<lparr>idD = ''d1'', driverProperty = P_rotation, sourceBoneId = ''a'',
                 sourceProperty = P_rotation, factor = 0.5, offset = 10\<rparr>"

text \<open>A root \<^verbatim>\<open>a\<close> with rotation 20 and a locked child \<^verbatim>\<open>b\<close> with rotation 0 and that driver.\<close>

definition lockedRig :: store where
  "lockedRig = [mkBone ''a'' None 10 20 0 0 [] [],
                (mkBone ''b'' (Some ''a'') 10 0 0 0 [] [halfDriver])\<lparr>locked := Some True\<rparr>]"

text \<open>The same rig with the child not locked.\<close>

definition drivenRig :: store where
  "drivenRig = [mkBone ''a'' None 10 20 0 0 [] [],
                mkBone ''b'' (Some ''a'') 10 0 0 0 [] [halfDriver]]"

text \<open>A driver that copies the x position of another bone: \<^verbatim>\<open>x = source.x * 1 + 0\<close>.\<close>

definition copyX :: "string \<Rightarrow> Driver" where
  "copyX src = \<lparr>idD = ''dx'', driverProperty = P_x, sourceBoneId = src,
                sourceProperty = P_x, factor = 1, offset = 0\<rparr>"

text \<open>
  Four root bones in a driver chain of three links: \<^verbatim>\<open>A.x\<close> follows \<^verbatim>\<open>B.x\<close>, \<^verbatim>\<open>B.x\<close>
  follows \<^verbatim>\<open>C.x\<close>, \<^verbatim>\<open>C.x\<close> follows \<^verbatim>\<open>D.x\<close>; only \<^verbatim>\<open>D\<close> is away from the origin.
\<close>

definition driverChain :: store where
  "driverChain = [mkBone ''A'' None 10 0 0 0 [] [copyX ''B''],
                  mkBone ''B'' None 10 0 0 0 [] [copyX ''C''],
                  mkBone ''C'' None 10 0 0 0 [] [copyX ''D''],
                  mkBone ''D'' None 10 0 7 0 [] []]"

text \<open>
  An effector \<^verbatim>\<open>e\<close> (a root of length 10 along the x axis) and its child \<^verbatim>\<open>b\<close>, whose
  rotation follows \<^verbatim>\<open>e.rotation * 0.5 + 10\<close>; the IK target lies on the x axis.
\<close>

definition ikRig :: store where
  "ikRig = [mkBone ''e'' None 10 0 0 0 [] [],
            mkBone ''b'' (Some ''e'') 10 0 0 0 []
              [\<lparr>idD = ''d1'', driverProperty = P_rotation, sourceBoneId = ''e'',
                sourceProperty = P_rotation, factor = 0.5, offset = 10\<rparr>]]"

definition ikTarget :: Vector2 where
  "ikTarget = \<lparr>xV = 20, yV = 0\<rparr>"





section \<open>Lemmas\<close>

subsection \<open>The normalisation loops\<close>

declare while_sub360.simps [simp del] while_add360.simps [simp del]
  buildChain.simps [simp del] forIterations.simps [simp del] interpLoop.simps [simp del]


lemma while_sub360_ge: "- 180 \<le> v \<Longrightarrow> - 180 \<le> while_sub360 v"
proof (induction v rule: while_sub360.induct)
  case (1 v)
  show ?case
  proof (cases "v > 180")
    case True
    then have "- 180 \<le> v - 360" by simp
    with "1.IH" True have "- 180 \<le> while_sub360 (v - 360)" by blast
    with True show ?thesis by (subst while_sub360.simps) simp
  next
    case False
    with "1.prems" show ?thesis by (subst while_sub360.simps) simp
  qed
qed











subsection \<open>What evaluateDrivers leaves unchanged\<close>

lemma nth_list_update_any: "(s[t := v]) ! a = (if a = t \<and> t < length s then v else s ! a)"
  by (cases "t < length s") (auto simp: nth_list_update list_update_beyond)

lemma applyDriver_length: "length (applyDriver ub t s d) = length s"
  by (simp add: applyDriver_def Let_def split: option.splits Property.splits)

lemma applyDriver_poseFree: "poseFree (applyDriver ub t s d ! a) = poseFree (s ! a)"
  by (simp add: applyDriver_def Let_def poseFree_def nth_list_update_any split: option.splits Property.splits)

lemma foldl_applyDriver_length: "length (foldl (applyDriver ub t) s ds) = length s"
  by (induction ds arbitrary: s) (simp_all add: applyDriver_length)

lemma foldl_applyDriver_poseFree: "poseFree (foldl (applyDriver ub t) s ds ! a) = poseFree (s ! a)"
  by (induction ds arbitrary: s) (simp_all add: applyDriver_poseFree)

lemma driveBone_length: "length (driveBone ub s t) = length s"
  by (simp add: driveBone_def foldl_applyDriver_length)

lemma driveBone_poseFree: "poseFree (driveBone ub s t ! a) = poseFree (s ! a)"
  by (simp add: driveBone_def foldl_applyDriver_poseFree)

lemma foldl_driveBone_length: "length (foldl (driveBone ub) s ts) = length s"
  by (induction ts arbitrary: s) (simp_all add: driveBone_length)

lemma foldl_driveBone_poseFree: "poseFree (foldl (driveBone ub) s ts ! a) = poseFree (s ! a)"
  by (induction ts arbitrary: s) (simp_all add: driveBone_poseFree)

lemma evaluateDrivers_fst: "fst (evaluateDrivers s bones) = bones"
  by (simp add: evaluateDrivers_def Let_def)

lemma evaluateDrivers_length: "length (snd (evaluateDrivers s bones)) = length s"
  by (simp add: evaluateDrivers_def Let_def driverPass_def foldl_driveBone_length)

lemma evaluateDrivers_poseFree: "poseFree (snd (evaluateDrivers s bones) ! a) = poseFree (s ! a)"
  by (simp add: evaluateDrivers_def Let_def driverPass_def foldl_driveBone_poseFree)

lemma poseFree_fields:
  assumes "poseFree b' = poseFree b"
  shows "idB b' = idB b" "parentId b' = parentId b" "lengthB b' = lengthB b"
    "constraints b' = constraints b" "drivers b' = drivers b" "locked b' = locked b"
    "name b' = name b" "color b' = color b" "visible b' = visible b"
proof -
  have "idB (poseFree b') = idB (poseFree b)" using assms by simp
  then show "idB b' = idB b" by (simp add: poseFree_def)
  have "parentId (poseFree b') = parentId (poseFree b)" using assms by simp
  then show "parentId b' = parentId b" by (simp add: poseFree_def)
  have "lengthB (poseFree b') = lengthB (poseFree b)" using assms by simp
  then show "lengthB b' = lengthB b" by (simp add: poseFree_def)
  have "constraints (poseFree b') = constraints (poseFree b)" using assms by simp
  then show "constraints b' = constraints b" by (simp add: poseFree_def)
  have "drivers (poseFree b') = drivers (poseFree b)" using assms by simp
  then show "drivers b' = drivers b" by (simp add: poseFree_def)
  have "locked (poseFree b') = locked (poseFree b)" using assms by simp
  then show "locked b' = locked b" by (simp add: poseFree_def)
  have "name (poseFree b') = name (poseFree b)" using assms by simp
  then show "name b' = name b" by (simp add: poseFree_def)
  have "color (poseFree b') = color (poseFree b)" using assms by simp
  then show "color b' = color b" by (simp add: poseFree_def)
  have "visible (poseFree b') = visible (poseFree b)" using assms by simp
  then show "visible b' = visible b" by (simp add: poseFree_def)
qed

lemma applyDriver_rotation: "a \<noteq> t \<or> driverProperty d \<noteq> P_rotation \<Longrightarrow> rotation (applyDriver ub t s d ! a) = rotation (s ! a)"
  by (auto simp add: applyDriver_def Let_def nth_list_update_any split: option.splits Property.splits)

lemma foldl_applyDriver_rotation:
  "a \<noteq> t \<or> (\<forall>d\<in>set ds. driverProperty d \<noteq> P_rotation) \<Longrightarrow> rotation (foldl (applyDriver ub t) s ds ! a) = rotation (s ! a)"
  by (induction ds arbitrary: s) (auto simp add: applyDriver_rotation)

lemma driveBone_rotation:
  "\<forall>d\<in>set (drivers (s ! a)). driverProperty d \<noteq> P_rotation \<Longrightarrow> rotation (driveBone ub s t ! a) = rotation (s ! a)"
  unfolding driveBone_def by (cases "a = t") (simp_all add: foldl_applyDriver_rotation)

lemma foldl_driveBone_rotation:
  "\<forall>d\<in>set (drivers (s ! a)). driverProperty d \<noteq> P_rotation \<Longrightarrow> rotation (foldl (driveBone ub) s ts ! a) = rotation (s ! a)"
proof (induction ts arbitrary: s)
  case Nil
  then show ?case by simp
next
  case (Cons t ts)
  have "drivers (driveBone ub s t ! a) = drivers (s ! a)"
    using driveBone_poseFree poseFree_fields(5) by blast
  with Cons.prems have "\<forall>d\<in>set (drivers (driveBone ub s t ! a)). driverProperty d \<noteq> P_rotation" by simp
  then have "rotation (foldl (driveBone ub) (driveBone ub s t) ts ! a) = rotation (driveBone ub s t ! a)"
    by (rule Cons.IH)
  with Cons.prems show ?case by (simp add: driveBone_rotation)
qed

lemma evaluateDrivers_rotation:
  assumes "\<forall>d\<in>set (drivers (s ! a)). driverProperty d \<noteq> P_rotation"
  shows "rotation (snd (evaluateDrivers s bones) ! a) = rotation (s ! a)"
proof -
  let ?s1 = "driverPass bones s"
  have r1: "rotation (?s1 ! a) = rotation (s ! a)"
    using assms by (simp add: driverPass_def foldl_driveBone_rotation)
  have "drivers (?s1 ! a) = drivers (s ! a)"
    unfolding driverPass_def using foldl_driveBone_poseFree poseFree_fields(5) by blast
  with assms have "\<forall>d\<in>set (drivers (?s1 ! a)). driverProperty d \<noteq> P_rotation" by simp
  then have "rotation (driverPass bones ?s1 ! a) = rotation (?s1 ! a)"
    by (simp add: driverPass_def foldl_driveBone_rotation)
  with r1 show ?thesis by (simp add: evaluateDrivers_def Let_def)
qed

subsection \<open>Parent paths\<close>









subsection \<open>The traversal of calculateFK\<close>

lemma deriveBone_idB [simp]: "idB (deriveBone b p) = idB b"
  by (simp add: deriveBone_def Let_def Bone.defs DerivedBone.defs)



lemma linked_mono: "linked b p R \<Longrightarrow> set R \<subseteq> set R' \<Longrightarrow> linked b p R'"
  by (auto simp: linked_def split: option.splits)

lemma derivedOk_mono: "derivedOk bs R d \<Longrightarrow> set R \<subseteq> set R' \<Longrightarrow> derivedOk bs R' d"
  unfolding derivedOk_def using linked_mono by blast

lemma fk_struct:
  "b \<in> set bs \<Longrightarrow> linked b p (result st) \<Longrightarrow> \<forall>d\<in>set (result st). derivedOk bs (result st) d
     \<Longrightarrow> processBone n bs b p st = Some st'
     \<Longrightarrow> set (result st) \<subseteq> set (result st') \<and> (\<forall>d\<in>set (result st'). derivedOk bs (result st') d)"
  "set cs \<subseteq> set bs \<Longrightarrow> \<forall>c\<in>set cs. linked c p (result st)
     \<Longrightarrow> \<forall>d\<in>set (result st). derivedOk bs (result st) d
     \<Longrightarrow> forEachBone n bs cs p st = Some st'
     \<Longrightarrow> set (result st) \<subseteq> set (result st') \<and> (\<forall>d\<in>set (result st'). derivedOk bs (result st') d)"
proof (induction n bs b p st and n bs cs p st arbitrary: st' and st'
    rule: processBone_forEachBone.induct)
  case (1 drivenBones bone parent st)
  then show ?case by simp
next
  case (2 n drivenBones bone parent st)
  let ?db = "deriveBone bone parent"
  let ?st1 = "st\<lparr>derived := (derived st)(idB bone \<mapsto> ?db), result := result st @ [?db]\<rparr>"
  let ?cs = "filter (\<lambda>b. parentId b = Some (idB bone)) drivenBones"
  have run: "forEachBone n drivenBones ?cs (Some ?db) ?st1 = Some st'"
    using "2.prems"(4) by (simp add: Let_def)
  have sub: "set (result st) \<subseteq> set (result ?st1)" by auto
  have "derivedOk drivenBones (result st) ?db"
    unfolding derivedOk_def using "2.prems"(1,2) by blast
  then have ok1: "\<forall>d\<in>set (result ?st1). derivedOk drivenBones (result ?st1) d"
    using "2.prems"(3) derivedOk_mono[OF _ sub] by auto
  have lk: "\<forall>c\<in>set ?cs. linked c (Some ?db) (result ?st1)"
    by (simp add: linked_def)
  from "2.IH"[OF refl refl _ lk ok1 run] sub show ?case by auto
next
  case (3 n drivenBones parent st)
  then show ?case by simp
next
  case (4 n drivenBones b bs parent st)
  from "4.prems"(4) obtain st1 where st1: "processBone n drivenBones b parent st = Some st1"
    and rest: "forEachBone n drivenBones bs parent st1 = Some st'"
    by (auto split: option.splits)
  have "b \<in> set drivenBones" "linked b parent (result st)" using "4.prems"(1,2) by auto
  from "4.IH"(1)[OF this "4.prems"(3) st1]
  have sub1: "set (result st) \<subseteq> set (result st1)"
    and ok1: "\<forall>d\<in>set (result st1). derivedOk drivenBones (result st1) d" by auto
  have lk: "\<forall>c\<in>set bs. linked c parent (result st1)"
    using "4.prems"(2) linked_mono[OF _ sub1] by auto
  have "set bs \<subseteq> set drivenBones" using "4.prems"(1) by simp
  from "4.IH"(2)[OF st1 this lk ok1 rest] sub1 show ?case by auto
qed

lemma deriveBone_fields:
  "rotation (deriveBone b p) = limitRotation (constraints b) (rotation b)"
  "xB (deriveBone b p) = xB b" "yB (deriveBone b p) = yB b"
  "lengthB (deriveBone b p) = lengthB b" "parentId (deriveBone b p) = parentId b"
  "constraints (deriveBone b p) = constraints b"
  "worldStart (deriveBone b None) = \<lparr>xV = xB b, yV = yB b\<rparr>"
  "worldStart (deriveBone b (Some pd)) = worldEnd pd"
  "worldRotation (deriveBone b None) = 0 + limitRotation (constraints b) (rotation b)"
  "worldRotation (deriveBone b (Some pd)) = worldRotation pd + limitRotation (constraints b) (rotation b)"
  "worldEnd (deriveBone b p) =
     \<lparr>xV = xV (worldStart (deriveBone b p)) + cos (degToRad (worldRotation (deriveBone b p))) * lengthB b,
      yV = yV (worldStart (deriveBone b p)) + sin (degToRad (worldRotation (deriveBone b p))) * lengthB b\<rparr>"
  by (simp_all add: deriveBone_def Let_def Bone.defs DerivedBone.defs split: option.splits)

lemma calculateFK_snd: "snd (calculateFK n s bones) = snd (evaluateDrivers s bones)"
  by (simp add: calculateFK_def Let_def split: prod.splits)

lemma calculateFK_fst:
  "fst (calculateFK n s bones) =
     map_option result
       (forEachBone n (map ((!) (snd (evaluateDrivers s bones))) bones)
          (filter (\<lambda>b. parentId b = None) (map ((!) (snd (evaluateDrivers s bones))) bones)) None
          \<lparr>derived = Map.empty, result = []\<rparr>)"
  by (simp add: calculateFK_def evaluateDrivers_def Let_def)

lemma calculateFK_struct:
  assumes "fst (calculateFK n s bones) = Some ds"
  shows "\<forall>d\<in>set ds. derivedOk (map ((!) (snd (calculateFK n s bones))) bones) ds d"
proof -
  let ?bs = "map ((!) (snd (evaluateDrivers s bones))) bones"
  let ?st0 = "\<lparr>derived = Map.empty, result = []\<rparr> :: fk_state"
  from assms obtain st' where run: "forEachBone n ?bs (filter (\<lambda>b. parentId b = None) ?bs) None ?st0 = Some st'"
    and ds: "ds = result st'"
    unfolding calculateFK_fst by auto
  have "set (filter (\<lambda>b. parentId b = None) ?bs) \<subseteq> set ?bs" by auto
  moreover have "\<forall>c\<in>set (filter (\<lambda>b. parentId b = None) ?bs). linked c None (result ?st0)"
    by (simp add: linked_def)
  moreover have "\<forall>d\<in>set (result ?st0). derivedOk ?bs (result ?st0) d" by simp
  ultimately have "\<forall>d\<in>set (result st'). derivedOk ?bs (result st') d"
    using fk_struct(2)[OF _ _ _ run] by blast
  then show ?thesis by (simp add: ds calculateFK_snd)
qed

lemma calculateFK_equations:
  assumes run: "fst (calculateFK n s bones) = Some ds" and d: "d \<in> set ds"
  shows "\<exists>b\<in>set (map ((!) (snd (calculateFK n s bones))) bones).
           idB d = idB b \<and>
           rotation d = limitRotation (constraints b) (rotation b) \<and>
           (case parentId b of
              None \<Rightarrow> worldStart d = \<lparr>xV = xB b, yV = yB b\<rparr> \<and> worldRotation d = 0 + rotation d
            | Some pid \<Rightarrow> \<exists>p\<in>set ds. idB p = pid \<and> worldStart d = worldEnd p \<and>
                           worldRotation d = worldRotation p + rotation d) \<and>
           worldEnd d = \<lparr>xV = xV (worldStart d) + cos (degToRad (worldRotation d)) * lengthB b,
                          yV = yV (worldStart d) + sin (degToRad (worldRotation d)) * lengthB b\<rparr>"
proof -
  let ?bs = "map ((!) (snd (calculateFK n s bones))) bones"
  from calculateFK_struct[OF run] d have "derivedOk ?bs ds d" by blast
  then obtain b par where b: "b \<in> set ?bs" and dd: "d = deriveBone b par" and lk: "linked b par ds"
    unfolding derivedOk_def by blast
  have "case parentId b of
              None \<Rightarrow> worldStart d = \<lparr>xV = xB b, yV = yB b\<rparr> \<and> worldRotation d = 0 + rotation d
            | Some pid \<Rightarrow> \<exists>p\<in>set ds. idB p = pid \<and> worldStart d = worldEnd p \<and>
                           worldRotation d = worldRotation p + rotation d"
  proof (cases par)
    case None
    with lk have "parentId b = None" by (simp add: linked_def)
    with None dd show ?thesis by (simp add: deriveBone_fields)
  next
    case (Some pd)
    with lk have "pd \<in> set ds" "parentId b = Some (idB pd)" by (simp_all add: linked_def)
    with Some dd show ?thesis by (auto simp add: deriveBone_fields)
  qed
  moreover have "idB d = idB b" "rotation d = limitRotation (constraints b) (rotation b)"
    using dd by (simp_all add: deriveBone_fields)
  moreover have "worldEnd d = \<lparr>xV = xV (worldStart d) + cos (degToRad (worldRotation d)) * lengthB b,
                          yV = yV (worldStart d) + sin (degToRad (worldRotation d)) * lengthB b\<rparr>"
    unfolding dd by (rule deriveBone_fields)
  ultimately show ?thesis using b by blast
qed








subsection \<open>Rooted bones are reached\<close>

lemma rooted_apath: "rooted bs i \<Longrightarrow> \<exists>\<pi>. apath bs (i # \<pi>)"
proof (induction rule: rooted.induct)
  case (rooted_root b)
  then have "apath bs [idB b]" by (rule apath_root)
  then show ?case by blast
next
  case (rooted_child p b)
  then obtain \<pi> where "apath bs (p # \<pi>)" by blast
  with rooted_child have "apath bs (idB b # p # \<pi>)" by (blast intro: apath_step)
  then show ?case by blast
qed







subsection \<open>The call depth is only a bound\<close>

lemma fk_fuel_mono:
  "processBone n bs b p st = Some st' \<Longrightarrow> n \<le> m \<Longrightarrow> processBone m bs b p st = Some st'"
  "forEachBone n bs cs p st = Some st' \<Longrightarrow> n \<le> m \<Longrightarrow> forEachBone m bs cs p st = Some st'"
proof (induction n bs b p st and n bs cs p st arbitrary: st' m and st' m
    rule: processBone_forEachBone.induct)
  case (1 drivenBones bone parent st)
  then show ?case by simp
next
  case (2 n drivenBones bone parent st)
  from "2.prems"(2) obtain m' where m: "m = Suc m'" and le: "n \<le> m'" by (cases m) simp_all
  from "2.prems"(1) have "forEachBone n drivenBones
      (filter (\<lambda>b. parentId b = Some (idB bone)) drivenBones) (Some (deriveBone bone parent))
      (st\<lparr>derived := (derived st)(idB bone \<mapsto> deriveBone bone parent),
          result := result st @ [deriveBone bone parent]\<rparr>) = Some st'"
    by (simp add: Let_def)
  from "2.IH"[OF refl refl this le] show ?case unfolding m by (simp add: Let_def)
next
  case (3 n drivenBones parent st)
  then show ?case by simp
next
  case (4 n drivenBones b bs parent st)
  from "4.prems"(1) obtain st1 where st1: "processBone n drivenBones b parent st = Some st1"
    and rest: "forEachBone n drivenBones bs parent st1 = Some st'"
    by (auto split: option.splits)
  from "4.IH"(1)[OF st1 "4.prems"(2)] "4.IH"(2)[OF st1 rest "4.prems"(2)]
  show ?case by simp
qed

lemma calculateFK_fuel_mono:
  "fst (calculateFK n s bones) = Some ds \<Longrightarrow> n \<le> m \<Longrightarrow> calculateFK m s bones = calculateFK n s bones"
proof -
  assume run: "fst (calculateFK n s bones) = Some ds" and le: "n \<le> m"
  let ?bs = "map ((!) (snd (evaluateDrivers s bones))) bones"
  let ?st0 = "\<lparr>derived = Map.empty, result = []\<rparr> :: fk_state"
  from run obtain st' where f: "forEachBone n ?bs (filter (\<lambda>b. parentId b = None) ?bs) None ?st0 = Some st'"
    unfolding calculateFK_fst by auto
  from fk_fuel_mono(2)[OF f le] f have "fst (calculateFK m s bones) = fst (calculateFK n s bones)"
    by (simp add: calculateFK_fst)
  moreover have "snd (calculateFK m s bones) = snd (calculateFK n s bones)"
    by (simp add: calculateFK_snd)
  ultimately show ?thesis by (rule prod_eqI)
qed

subsection \<open>Interpolation\<close>

lemma sorted_time_nth:
  "sorted (map time keys) \<Longrightarrow> a \<le> b \<Longrightarrow> b < length keys \<Longrightarrow> time (keys ! a) \<le> time (keys ! b)"
  using sorted_nth_mono[of "map time keys" a b] by simp

lemma interpLoop_found:
  assumes s: "sorted (map time keys)" and i: "i + 1 < length keys"
    and lo: "time (keys ! i) \<le> frame" and hi: "frame < time (keys ! (i + 1))"
  shows "j \<le> i \<Longrightarrow> interpLoop keys frame j =
     Some (valueK (keys ! i) + (valueK (keys ! (i + 1)) - valueK (keys ! i)) *
             getEasing (easing (keys ! i))
               ((frame - time (keys ! i)) / (time (keys ! (i + 1)) - time (keys ! i))))"
proof (induction "i - j" arbitrary: j)
  case 0
  then have "j = i" by simp
  with i lo hi show ?case by (subst interpLoop.simps) (simp add: Let_def)
next
  case (Suc d)
  then have ji: "j + 1 \<le> i" by simp
  with i have "time (keys ! (j + 1)) \<le> time (keys ! i)" using sorted_time_nth[OF s] by simp
  with lo have "\<not> frame < time (keys ! (j + 1))" by simp
  moreover have "j < length keys - 1" using ji i by simp
  ultimately have "interpLoop keys frame j = interpLoop keys frame (j + 1)"
    by (subst interpLoop.simps) (simp add: Let_def)
  moreover have "d = i - (j + 1)" using Suc.hyps(2) by simp
  ultimately show ?case using Suc.hyps(1)[of "j + 1"] ji by simp
qed

lemma distinct_time_sort:
  "distinct (map time ks) \<Longrightarrow> distinct (map time (sort_key time ks))"
  by (simp add: distinct_map)

lemma sorted_distinct_hd_last:
  assumes s: "sorted (map time keys)" and d: "distinct (map time keys)" and l: "1 < length keys"
  shows "time (keys ! 0) < time (keys ! (length keys - 1))"
proof -
  have le: "time (keys ! 0) \<le> time (keys ! (length keys - 1))"
    using sorted_time_nth[OF s, of 0 "length keys - 1"] l by simp
  have "map time keys ! 0 \<noteq> map time keys ! (length keys - 1)"
  proof -
    have "0 < length (map time keys)" "length keys - 1 < length (map time keys)"
      "0 \<noteq> length keys - 1" using l by auto
    with d show ?thesis unfolding distinct_conv_nth by blast
  qed
  moreover have "0 < length keys" "length keys - 1 < length keys" using l by auto
  ultimately have "time (keys ! 0) \<noteq> time (keys ! (length keys - 1))" by simp
  with le show ?thesis by simp
qed

lemma getEasing_zero: "getEasing e 0 = 0"
  by (cases e) (simp_all add: getEasing_def easeIn_def easeOut_def easeInOut_def easeLinear_def)

lemma getInterpolatedValue_None: "getInterpolatedValue track frame = None \<longleftrightarrow> keyframes track = []"
  by (simp add: getInterpolatedValue_def Let_def split: option.splits)

lemma getInterpolatedValue_first:
  assumes "keyframes track \<noteq> []" and "frame \<le> time (hd (sort_key time (keyframes track)))"
  shows "getInterpolatedValue track frame = Some (valueK (hd (sort_key time (keyframes track))))"
proof -
  have "sort_key time (keyframes track) \<noteq> []" using assms(1) by (metis length_0_conv length_sort)
  then have "sort_key time (keyframes track) ! 0 = hd (sort_key time (keyframes track))"
    by (simp add: hd_conv_nth)
  with assms show ?thesis by (simp add: getInterpolatedValue_def Let_def)
qed

lemma getInterpolatedValue_last:
  assumes ne: "keyframes track \<noteq> []" and d: "distinct (map time (keyframes track))"
    and f: "time (last (sort_key time (keyframes track))) \<le> frame"
  shows "getInterpolatedValue track frame = Some (valueK (last (sort_key time (keyframes track))))"
proof -
  let ?keys = "sort_key time (keyframes track)"
  have kne: "?keys \<noteq> []" using ne by (metis length_0_conv length_sort)
  then have l: "?keys ! (length ?keys - 1) = last ?keys" by (simp add: last_conv_nth)
  have s: "sorted (map time ?keys)" by simp
  have dk: "distinct (map time ?keys)" using d by (rule distinct_time_sort)
  show ?thesis
  proof (cases "frame \<le> time (?keys ! 0)")
    case True
    have "\<not> 1 < length ?keys"
    proof
      assume "1 < length ?keys"
      from sorted_distinct_hd_last[OF s dk this] True f l show False by simp
    qed
    with kne have "length ?keys = 1" by (cases ?keys) simp_all
    then have "?keys ! 0 = last ?keys" using l by simp
    with True ne show ?thesis by (simp add: getInterpolatedValue_def Let_def)
  next
    case False
    with ne f l show ?thesis by (simp add: getInterpolatedValue_def Let_def)
  qed
qed

lemma getInterpolatedValue_between:
  assumes ne: "keyframes track \<noteq> []" and d: "distinct (map time (keyframes track))"
    and i: "i + 1 < length (sort_key time (keyframes track))"
    and lo: "time (sort_key time (keyframes track) ! i) \<le> frame"
    and hi: "frame < time (sort_key time (keyframes track) ! (i + 1))"
  shows "getInterpolatedValue track frame =
     Some (valueK (sort_key time (keyframes track) ! i) +
           (valueK (sort_key time (keyframes track) ! (i + 1)) - valueK (sort_key time (keyframes track) ! i)) *
             getEasing (easing (sort_key time (keyframes track) ! i))
               ((frame - time (sort_key time (keyframes track) ! i)) /
                (time (sort_key time (keyframes track) ! (i + 1)) - time (sort_key time (keyframes track) ! i))))"
proof -
  let ?keys = "sort_key time (keyframes track)"
  have s: "sorted (map time ?keys)" by simp
  have dk: "distinct (map time ?keys)" using d by (rule distinct_time_sort)
  have nl: "\<not> time (?keys ! (length ?keys - 1)) \<le> frame"
  proof -
    have "i + 1 \<le> length ?keys - 1" "length ?keys - 1 < length ?keys" using i by linarith+
    then have "time (?keys ! (i + 1)) \<le> time (?keys ! (length ?keys - 1))"
      by (rule sorted_time_nth[OF s])
    with hi show ?thesis by linarith
  qed
  show ?thesis
  proof (cases "frame \<le> time (?keys ! 0)")
    case True
    have "time (?keys ! 0) \<le> time (?keys ! i)" using sorted_time_nth[OF s, of 0 i] i by simp
    with True lo have e: "time (?keys ! i) = time (?keys ! 0)" and fr: "frame = time (?keys ! i)" by simp_all
    have il: "i < length ?keys" "0 < length ?keys" using i by linarith+
    then have "map time ?keys ! i = map time ?keys ! 0" using e by (simp only: nth_map)
    moreover have "i < length (map time ?keys)" "0 < length (map time ?keys)" using il by auto
    ultimately have "i = 0" using dk unfolding distinct_conv_nth by blast
    with True ne fr show ?thesis
      by (simp add: getInterpolatedValue_def Let_def getEasing_zero)
  next
    case False
    from interpLoop_found[OF s i lo hi, of 0]
    show ?thesis using False nl ne by (simp add: getInterpolatedValue_def Let_def)
  qed
qed

lemma sort_key_hd_min:
  assumes "ks \<noteq> []"
  shows "hd (sort_key time ks) \<in> set ks \<and> (\<forall>k\<in>set ks. time (hd (sort_key time ks)) \<le> time k)"
proof -
  let ?keys = "sort_key time ks"
  have ne: "?keys \<noteq> []" using assms by (metis length_0_conv length_sort)
  then have "hd ?keys \<in> set ?keys" by (rule hd_in_set)
  then have a: "hd ?keys \<in> set ks" by simp
  have s: "sorted (map time ?keys)" by simp
  have "time (hd ?keys) \<le> time k" if "k \<in> set ks" for k
  proof -
    from that have "k \<in> set ?keys" by simp
    then obtain j where j: "j < length ?keys" "?keys ! j = k" by (metis in_set_conv_nth)
    with sorted_time_nth[OF s, of 0 j] ne show ?thesis by (simp add: hd_conv_nth)
  qed
  with a show ?thesis by blast
qed

lemma sort_key_last_max:
  assumes "ks \<noteq> []"
  shows "last (sort_key time ks) \<in> set ks \<and> (\<forall>k\<in>set ks. time k \<le> time (last (sort_key time ks)))"
proof -
  let ?keys = "sort_key time ks"
  have ne: "?keys \<noteq> []" using assms by (metis length_0_conv length_sort)
  then have "last ?keys \<in> set ?keys" by (rule last_in_set)
  then have a: "last ?keys \<in> set ks" by simp
  have s: "sorted (map time ?keys)" by simp
  have "time k \<le> time (last ?keys)" if "k \<in> set ks" for k
  proof -
    from that have "k \<in> set ?keys" by simp
    then obtain j where j: "j < length ?keys" "?keys ! j = k" by (metis in_set_conv_nth)
    with sorted_time_nth[OF s, of j "length ?keys - 1"] ne show ?thesis by (simp add: last_conv_nth)
  qed
  with a show ?thesis by blast
qed

subsection \<open>evaluateDrivers does not read the locked flag\<close>

lemma sameButLocked_nth:
  "sameButLocked s s2 \<Longrightarrow> a < length s \<Longrightarrow>
     idB (s2 ! a) = idB (s ! a) \<and> rotation (s2 ! a) = rotation (s ! a) \<and> xB (s2 ! a) = xB (s ! a) \<and>
     yB (s2 ! a) = yB (s ! a) \<and> drivers (s2 ! a) = drivers (s ! a)"
proof -
  assume "sameButLocked s s2" "a < length s"
  then have e: "s2 ! a = (s ! a)\<lparr>locked := locked (s2 ! a)\<rparr>" by (simp add: sameButLocked_def)
  have "idB ((s ! a)\<lparr>locked := locked (s2 ! a)\<rparr>) = idB (s ! a)"
    "rotation ((s ! a)\<lparr>locked := locked (s2 ! a)\<rparr>) = rotation (s ! a)"
    "xB ((s ! a)\<lparr>locked := locked (s2 ! a)\<rparr>) = xB (s ! a)"
    "yB ((s ! a)\<lparr>locked := locked (s2 ! a)\<rparr>) = yB (s ! a)"
    "drivers ((s ! a)\<lparr>locked := locked (s2 ! a)\<rparr>) = drivers (s ! a)" by simp_all
  then show ?thesis by (simp only: e[symmetric])
qed

lemma sameButLocked_update:
  assumes r: "sameButLocked s s2"
    and f: "\<And>b l. f (b\<lparr>locked := l\<rparr>) = (f b)\<lparr>locked := l\<rparr>"
    and g: "\<And>b. locked (f b) = locked b"
  shows "sameButLocked (s[t := f (s ! t)]) (s2[t := f (s2 ! t)])"
  unfolding sameButLocked_def
proof (intro conjI allI impI)
  show "length (s2[t := f (s2 ! t)]) = length (s[t := f (s ! t)])"
    using r by (simp add: sameButLocked_def)
next
  fix a assume "a < length (s[t := f (s ! t)])"
  then have a: "a < length s" by simp
  with r have e: "s2 ! a = (s ! a)\<lparr>locked := locked (s2 ! a)\<rparr>" and l: "length s2 = length s"
    by (simp_all add: sameButLocked_def)
  show "s2[t := f (s2 ! t)] ! a = (s[t := f (s ! t)] ! a)\<lparr>locked := locked (s2[t := f (s2 ! t)] ! a)\<rparr>"
  proof (cases "a = t")
    case True
    have "f (s2 ! a) = f ((s ! a)\<lparr>locked := locked (s2 ! a)\<rparr>)" using e by simp
    also have "\<dots> = (f (s ! a))\<lparr>locked := locked (s2 ! a)\<rparr>" by (rule f)
    finally have "f (s2 ! a) = (f (s ! a))\<lparr>locked := locked (f (s2 ! a))\<rparr>" by (simp add: g)
    with True a l show ?thesis by simp
  next
    case False
    with e show ?thesis by simp
  qed
qed

lemma applyDriver_sameButLocked:
  assumes r: "sameButLocked s s2" and b: "\<forall>a\<in>set ub. a < length s"
  shows "sameButLocked (applyDriver ub t s d) (applyDriver ub t s2 d)"
proof -
  have fe: "find (\<lambda>a. idB (s2 ! a) = sourceBoneId d) ub = find (\<lambda>a. idB (s ! a) = sourceBoneId d) ub"
    using b sameButLocked_nth[OF r] by (intro find_cong) auto
  show ?thesis
  proof (cases "find (\<lambda>a. idB (s ! a) = sourceBoneId d) ub")
    case None
    with fe r show ?thesis by (simp add: applyDriver_def)
  next
    case (Some src)
    then have "src \<in> set ub" by (auto simp: find_Some_iff)
    with b have "src < length s" by blast
    note v = sameButLocked_nth[OF r this]
    have in_eq: "(case sourceProperty d of P_rotation \<Rightarrow> rotation (s2 ! src) | P_x \<Rightarrow> xB (s2 ! src)
                  | P_y \<Rightarrow> yB (s2 ! src)) =
                 (case sourceProperty d of P_rotation \<Rightarrow> rotation (s ! src) | P_x \<Rightarrow> xB (s ! src)
                  | P_y \<Rightarrow> yB (s ! src))"
      using v by (simp split: Property.splits)
    show ?thesis
    proof (cases "driverProperty d")
      case P_rotation
      with Some fe in_eq show ?thesis
        using sameButLocked_update[OF r, of "\<lambda>b. b\<lparr>rotation := (case sourceProperty d of P_rotation \<Rightarrow> rotation (s ! src) | P_x \<Rightarrow> xB (s ! src) | P_y \<Rightarrow> yB (s ! src)) * factor d + offset d\<rparr>" t]
        by (simp add: applyDriver_def Let_def)
    next
      case P_x
      with Some fe in_eq show ?thesis
        using sameButLocked_update[OF r, of "\<lambda>b. b\<lparr>xB := (case sourceProperty d of P_rotation \<Rightarrow> rotation (s ! src) | P_x \<Rightarrow> xB (s ! src) | P_y \<Rightarrow> yB (s ! src)) * factor d + offset d\<rparr>" t]
        by (simp add: applyDriver_def Let_def)
    next
      case P_y
      with Some fe in_eq show ?thesis
        using sameButLocked_update[OF r, of "\<lambda>b. b\<lparr>yB := (case sourceProperty d of P_rotation \<Rightarrow> rotation (s ! src) | P_x \<Rightarrow> xB (s ! src) | P_y \<Rightarrow> yB (s ! src)) * factor d + offset d\<rparr>" t]
        by (simp add: applyDriver_def Let_def)
    qed
  qed
qed

lemma foldl_applyDriver_sameButLocked:
  "sameButLocked s s2 \<Longrightarrow> \<forall>a\<in>set ub. a < length s
     \<Longrightarrow> sameButLocked (foldl (applyDriver ub t) s ds) (foldl (applyDriver ub t) s2 ds)"
proof (induction ds arbitrary: s s2)
  case Nil
  then show ?case by simp
next
  case (Cons d ds)
  have "sameButLocked (applyDriver ub t s d) (applyDriver ub t s2 d)"
    using Cons.prems by (rule applyDriver_sameButLocked)
  moreover have "\<forall>a\<in>set ub. a < length (applyDriver ub t s d)"
    using Cons.prems(2) by (simp add: applyDriver_length)
  ultimately show ?case using Cons.IH by simp
qed

lemma driveBone_sameButLocked:
  assumes r: "sameButLocked s s2" and b: "\<forall>a\<in>set ub. a < length s" and t: "t \<in> set ub"
  shows "sameButLocked (driveBone ub s t) (driveBone ub s2 t)"
proof -
  from b t have "t < length s" by blast
  then have "drivers (s2 ! t) = drivers (s ! t)" using sameButLocked_nth[OF r] by blast
  then show ?thesis
    unfolding driveBone_def using foldl_applyDriver_sameButLocked[OF r b] by simp
qed

lemma foldl_driveBone_sameButLocked:
  "sameButLocked s s2 \<Longrightarrow> \<forall>a\<in>set ub. a < length s \<Longrightarrow> set ts \<subseteq> set ub
     \<Longrightarrow> sameButLocked (foldl (driveBone ub) s ts) (foldl (driveBone ub) s2 ts)"
proof (induction ts arbitrary: s s2)
  case Nil
  then show ?case by simp
next
  case (Cons t ts)
  have "sameButLocked (driveBone ub s t) (driveBone ub s2 t)"
    using Cons.prems by (intro driveBone_sameButLocked) auto
  moreover have "\<forall>a\<in>set ub. a < length (driveBone ub s t)"
    using Cons.prems(2) by (simp add: driveBone_length)
  moreover have "set ts \<subseteq> set ub" using Cons.prems(3) by simp
  ultimately show ?case using Cons.IH by simp
qed

lemma evaluateDrivers_sameButLocked:
  assumes r: "sameButLocked s s2" and b: "\<forall>a\<in>set bones. a < length s"
  shows "sameButLocked (snd (evaluateDrivers s bones)) (snd (evaluateDrivers s2 bones))"
proof -
  have 1: "sameButLocked (foldl (driveBone bones) s bones) (foldl (driveBone bones) s2 bones)"
    using foldl_driveBone_sameButLocked[OF r b subset_refl] .
  have b1: "\<forall>a\<in>set bones. a < length (foldl (driveBone bones) s bones)"
    using b by (simp add: foldl_driveBone_length)
  have "sameButLocked (foldl (driveBone bones) (foldl (driveBone bones) s bones) bones)
     (foldl (driveBone bones) (foldl (driveBone bones) s2 bones) bones)"
    using foldl_driveBone_sameButLocked[OF 1 b1 subset_refl] .
  then show ?thesis by (simp add: evaluateDrivers_def driverPass_def Let_def)
qed

lemma evaluateDrivers_locked: "locked (snd (evaluateDrivers s bones) ! a) = locked (s ! a)"
  using poseFree_fields(6)[OF evaluateDrivers_poseFree] by simp

subsection \<open>solveIK on the example rig\<close>

lemma list_update_same: "xs ! i = v \<Longrightarrow> xs[i := v] = xs"
  by auto

lemma ikRig_chain: "buildChain ikRig [0, 1] (Some ''e'') 0 [] = [''e'']"
  by (simp add: buildChain.simps ikRig_def mkBone_def Let_def)

lemma ikRig_drivers:
  assumes k: "s ! k = ikRig ! 0" and b: "(s ! 1)\<lparr>rotation := 10\<rparr> = (ikRig ! 1)\<lparr>rotation := 10\<rparr>"
    and n: "k \<noteq> 1" and l: "1 < length s"
  shows "evaluateDrivers s [k, 1] = ([k, 1], s[1 := (ikRig ! 1)\<lparr>rotation := 10\<rparr>])"
proof -
  have d0: "drivers (s ! k) = []" using k by (simp add: ikRig_def mkBone_def)
  have "drivers ((s ! 1)\<lparr>rotation := 10\<rparr>) = drivers ((ikRig ! 1)\<lparr>rotation := 10\<rparr>)"
    using b by simp
  then have d1: "drivers (s ! 1) =
      [\<lparr>idD = ''d1'', driverProperty = P_rotation, sourceBoneId = ''e'',
        sourceProperty = P_rotation, factor = 0.5, offset = 10\<rparr>]"
    by (simp add: ikRig_def mkBone_def)
  have ie: "idB (s ! k) = ''e''" "rotation (s ! k) = 0" using k by (simp_all add: ikRig_def mkBone_def)
  have p1: "driverPass [k, 1] s = s[1 := (ikRig ! 1)\<lparr>rotation := 10\<rparr>]"
    using n l d0 d1 ie b by (simp add: driverPass_def driveBone_def applyDriver_def)
  let ?s1 = "s[1 := (ikRig ! 1)\<lparr>rotation := 10\<rparr>]"
  have k1: "?s1 ! k = s ! k" using n by simp
  have b1: "?s1 ! 1 = (ikRig ! 1)\<lparr>rotation := 10\<rparr>" using l by simp
  have d1': "drivers (?s1 ! 1) =
      [\<lparr>idD = ''d1'', driverProperty = P_rotation, sourceBoneId = ''e'',
        sourceProperty = P_rotation, factor = 0.5, offset = 10\<rparr>]"
    unfolding b1 by (simp add: ikRig_def mkBone_def)
  have ie1: "idB (?s1 ! k) = ''e''" "rotation (?s1 ! k) = 0" "drivers (?s1 ! k) = []"
    using ie d0 k1 by simp_all
  have "driverPass [k, 1] ?s1 = ?s1[1 := (?s1 ! 1)\<lparr>rotation := 10\<rparr>]"
    using n l ie1 d1' by (simp add: driverPass_def driveBone_def applyDriver_def)
  also have "\<dots> = ?s1" unfolding b1 by simp
  finally have p2: "driverPass [k, 1] ?s1 = ?s1" .
  show ?thesis unfolding evaluateDrivers_def Let_def p1 p2 ..
qed

lemma ikRig_step:
  assumes k: "s ! k = ikRig ! 0" and b: "(s ! 1)\<lparr>rotation := 10\<rparr> = (ikRig ! 1)\<lparr>rotation := 10\<rparr>"
    and n: "k \<noteq> 1" and l: "1 < length s" and kl: "k < length s"
  shows "ikStep 2 ''e'' ikTarget ''e'' [k, 1] s =
           (Some [length s, 1], s[1 := (ikRig ! 1)\<lparr>rotation := 10\<rparr>] @ [ikRig ! 0])"
proof -
  let ?s1 = "s[1 := (ikRig ! 1)\<lparr>rotation := 10\<rparr>]"
  let ?dE = "deriveBone (ikRig ! 0) None"
  let ?dB = "deriveBone ((ikRig ! 1)\<lparr>rotation := 10\<rparr>) (Some ?dE)"
  have k1: "?s1 ! k = ikRig ! 0" using n k by simp
  have b1: "?s1 ! 1 = (ikRig ! 1)\<lparr>rotation := 10\<rparr>" using l by simp
  have vals: "map ((!) ?s1) [k, 1] = [ikRig ! 0, (ikRig ! 1)\<lparr>rotation := 10\<rparr>]"
    using k1 b1 by simp
  have trav: "forEachBone 2 [ikRig ! 0, (ikRig ! 1)\<lparr>rotation := 10\<rparr>]
      (filter (\<lambda>b. parentId b = None) [ikRig ! 0, (ikRig ! 1)\<lparr>rotation := 10\<rparr>]) None
      \<lparr>derived = Map.empty, result = []\<rparr> = Some \<lparr>derived = [''e'' \<mapsto> ?dE, ''b'' \<mapsto> ?dB], result = [?dE, ?dB]\<rparr>"
    by (simp add: ikRig_def mkBone_def numeral_2_eq_2 Let_def)
  have fk: "calculateFK 2 s [k, 1] = (Some [?dE, ?dB], ?s1)"
    unfolding calculateFK_def ikRig_drivers[OF k b n l] Let_def prod.case vals trav by simp
  have f1: "find (\<lambda>b. idB b = ''e'') [?dE, ?dB] = Some ?dE"
    by (simp add: ikRig_def mkBone_def)
  have we: "worldEnd ?dE = \<lparr>xV = 10, yV = 0\<rparr>" "worldStart ?dE = \<lparr>xV = 0, yV = 0\<rparr>"
    by (simp_all add: deriveBone_fields limitRotation_def degToRad_def ikRig_def mkBone_def)
  have ang: "atan2 0 10 = 0" "atan2 0 20 = 0" by (simp_all add: atan2_def)
  define f where "f = (\<lambda>b::Bone. if idB b = ''e'' \<and> locked b \<noteq> Some True
           then Some (b\<lparr>rotation := limitRotation (constraints b) (rotation b + 0)\<rparr>) else None)"
  have fE: "f (?s1 ! k) = Some (ikRig ! 0)"
    unfolding f_def k1 by (simp add: ikRig_def mkBone_def limitRotation_def)
  have x: "(?s1 @ [ikRig ! 0]) ! 1 = (ikRig ! 1)\<lparr>rotation := 10\<rparr>"
    using l by (simp add: nth_append)
  have fB: "f ((?s1 @ [ikRig ! 0]) ! 1) = None"
    unfolding f_def x by (simp add: ikRig_def mkBone_def)
  have "array_map f [1] (?s1 @ [ikRig ! 0]) = ([1], ?s1 @ [ikRig ! 0])"
    using fB by simp
  then have am: "array_map f [k, 1] ?s1 = ([length s, 1], ?s1 @ [ikRig ! 0])"
    using fE by simp
  show ?thesis
    unfolding ikStep_def fk prod.case option.case f1 Let_def we
    using am by (simp add: ikTarget_def ang radToDeg_def f_def del: array_map.simps cong: if_cong)
qed

lemma ikRig_iterate:
  "s ! k = ikRig ! 0 \<Longrightarrow> (s ! 1)\<lparr>rotation := 10\<rparr> = (ikRig ! 1)\<lparr>rotation := 10\<rparr>
     \<Longrightarrow> k \<noteq> 1 \<Longrightarrow> 1 < length s \<Longrightarrow> k < length s \<Longrightarrow> i < 10
     \<Longrightarrow> forIterations 2 ''e'' ikTarget [''e''] i [k, 1] s =
           (Some [length s + (9 - i), 1],
            s[1 := (ikRig ! 1)\<lparr>rotation := 10\<rparr>] @ replicate (10 - i) (ikRig ! 0))"
proof (induction "9 - i" arbitrary: i k s)
  case 0
  then have i: "i = 9" by simp
  have "forChain 2 ''e'' ikTarget [''e''] [k, 1] s =
      (Some [length s, 1], s[1 := (ikRig ! 1)\<lparr>rotation := 10\<rparr>] @ [ikRig ! 0])"
    using ikRig_step[OF "0.prems"(1-5)] by simp
  then show ?case unfolding i
    by (subst forIterations.simps) (simp add: forIterations.simps)
next
  case (Suc d)
  let ?s1 = "s[1 := (ikRig ! 1)\<lparr>rotation := 10\<rparr>]"
  let ?s2 = "?s1 @ [ikRig ! 0]"
  have i: "i < 9" "d = 9 - (i + 1)" "i + 1 < 10" using Suc.hyps(2) by simp_all
  have fc: "forChain 2 ''e'' ikTarget [''e''] [k, 1] s = (Some [length s, 1], ?s2)"
    using ikRig_step[OF Suc.prems(1-5)] by simp
  have l: "1 < length s" by (rule Suc.prems(4))
  have a1: "?s2 ! length s = ikRig ! 0" by (simp add: nth_append)
  have "?s2 ! 1 = (ikRig ! 1)\<lparr>rotation := 10\<rparr>" using l by (simp add: nth_append)
  then have a2: "(?s2 ! 1)\<lparr>rotation := 10\<rparr> = (ikRig ! 1)\<lparr>rotation := 10\<rparr>"
    and same: "?s2[1 := (ikRig ! 1)\<lparr>rotation := 10\<rparr>] = ?s2"
    by (simp_all add: list_update_same)
  have a3: "length s \<noteq> 1" "1 < length ?s2" "length s < length ?s2" using l by auto
  from Suc.hyps(1)[OF i(2) a1 a2 a3 i(3)]
  have "forIterations 2 ''e'' ikTarget [''e''] (i + 1) [length s, 1] ?s2 =
      (Some [length ?s2 + (9 - (i + 1)), 1], ?s2 @ replicate (10 - (i + 1)) (ikRig ! 0))"
    unfolding same .
  moreover have "length ?s2 + (9 - (i + 1)) = length s + (9 - i)" using i(1) by simp
  moreover have "?s2 @ replicate (10 - (i + 1)) (ikRig ! 0) = ?s1 @ replicate (10 - i) (ikRig ! 0)"
  proof -
    have "10 - i = Suc (10 - (i + 1))" using i(1) by simp
    then show ?thesis by (simp only: replicate_Suc append_Cons append_Nil append_assoc)
  qed
  ultimately have "forIterations 2 ''e'' ikTarget [''e''] (i + 1) [length s, 1] ?s2 =
      (Some [length s + (9 - i), 1], ?s1 @ replicate (10 - i) (ikRig ! 0))" by simp
  with fc Suc.prems(6) show ?case by (subst forIterations.simps) simp
qed

lemma ikRig_solve:
  "solveIK 2 ikRig [0, 1] ''e'' ikTarget =
     (Some [11, 1], [ikRig ! 0, (ikRig ! 1)\<lparr>rotation := 10\<rparr>] @ replicate 10 (ikRig ! 0))"
proof -
  have "forIterations 2 ''e'' ikTarget [''e''] 0 [0, 1] ikRig =
      (Some [length ikRig + (9 - 0), 1], ikRig[1 := (ikRig ! 1)\<lparr>rotation := 10\<rparr>] @ replicate (10 - 0) (ikRig ! 0))"
    by (rule ikRig_iterate) (simp_all add: ikRig_def)
  moreover have "length ikRig + (9 - 0) = 11" by (simp add: ikRig_def)
  moreover have "ikRig[1 := (ikRig ! 1)\<lparr>rotation := 10\<rparr>] = [ikRig ! 0, (ikRig ! 1)\<lparr>rotation := 10\<rparr>]"
    by (simp add: ikRig_def)
  ultimately show ?thesis unfolding solveIK_def ikRig_chain Let_def by simp
qed

subsection \<open>array_map and applyAnimation\<close>

lemma array_map_spec:
  "\<forall>a\<in>set as. a < length s \<Longrightarrow> array_map f as s = (r, s')
     \<Longrightarrow> length r = length as \<and> length s \<le> length s' \<and> (\<forall>a<length s. s' ! a = s ! a) \<and>
         (\<forall>a\<in>set r. a < length s') \<and>
         map ((!) s') r = map (\<lambda>a. case f (s ! a) of None \<Rightarrow> s ! a | Some b' \<Rightarrow> b') as"
proof (induction as arbitrary: s r s')
  case Nil
  then show ?case by simp
next
  case (Cons a as)
  have al: "a < length s" and asl: "\<forall>a\<in>set as. a < length s" using Cons.prems(1) by simp_all
  show ?case
  proof (cases "f (s ! a)")
    case None
    obtain r0 s0 where rec: "array_map f as s = (r0, s0)" by (cases "array_map f as s")
    with None Cons.prems(2) have r: "r = a # r0" and s': "s' = s0" by simp_all
    from Cons.IH[OF asl rec] have ih: "length r0 = length as" "length s \<le> length s0"
      "\<forall>a<length s. s0 ! a = s ! a" "\<forall>a\<in>set r0. a < length s0"
      "map ((!) s0) r0 = map (\<lambda>a. case f (s ! a) of None \<Rightarrow> s ! a | Some b' \<Rightarrow> b') as"
      by simp_all
    have "s0 ! a = s ! a" using ih(3) al by simp
    with ih al None show ?thesis unfolding r s' by simp
  next
    case (Some b')
    let ?t = "s @ [b']"
    obtain r0 s0 where rec: "array_map f as ?t = (r0, s0)" by (cases "array_map f as ?t")
    with Some Cons.prems(2) have r: "r = length s # r0" and s': "s' = s0" by simp_all
    have asl': "\<forall>a\<in>set as. a < length ?t" using asl by auto
    from Cons.IH[OF asl' rec] have ih: "length r0 = length as" "length ?t \<le> length s0"
      "\<forall>a<length ?t. s0 ! a = ?t ! a" "\<forall>a\<in>set r0. a < length s0"
      "map ((!) s0) r0 = map (\<lambda>a. case f (?t ! a) of None \<Rightarrow> ?t ! a | Some b' \<Rightarrow> b') as"
      by simp_all
    have old: "\<forall>a<length s. s0 ! a = s ! a"
    proof (intro allI impI)
      fix x assume x: "x < length s"
      then have "s0 ! x = ?t ! x" using ih(3) by simp
      with x show "s0 ! x = s ! x" by (simp add: nth_append)
    qed
    have new: "s0 ! length s = b'" using ih(3) by simp
    have "map (\<lambda>a. case f (?t ! a) of None \<Rightarrow> ?t ! a | Some b' \<Rightarrow> b') as
        = map (\<lambda>a. case f (s ! a) of None \<Rightarrow> s ! a | Some b' \<Rightarrow> b') as"
      using asl by (intro map_cong) (auto simp add: nth_append split: option.splits)
    with ih(5) have m: "map ((!) s0) r0 = map (\<lambda>a. case f (s ! a) of None \<Rightarrow> s ! a | Some b' \<Rightarrow> b') as"
      by simp
    have "length s < length s0" "length s \<le> length s0" using ih(2) by simp_all
    with ih(1,4) old new m Some show ?thesis unfolding r s' by simp
  qed
qed






subsection \<open>solveIK on a rig without drivers\<close>

lemma evaluateDrivers_no_drivers:
  assumes "\<forall>a\<in>set bones. drivers (s ! a) = []"
  shows "evaluateDrivers s bones = (bones, s)"
proof -
  have "foldl (driveBone ub) s ts = s" if "\<forall>a\<in>set ts. drivers (s ! a) = []" for ub ts
    using that by (induction ts) (simp_all add: driveBone_def)
  then have "driverPass bones s = s" using assms by (simp add: driverPass_def)
  then show ?thesis by (simp add: evaluateDrivers_def Let_def)
qed

lemma buildChain_length:
  "length (buildChain s bones c depth chain) \<le> length chain + (4 - depth)"
proof (induction s bones c depth chain rule: buildChain.induct)
  case (1 s bones currentId depth chain)
  show ?case
  proof (cases "currentId \<noteq> None \<and> currentId \<noteq> Some [] \<and> depth < 4")
    case True
    then have "buildChain s bones currentId depth chain =
        buildChain s bones
          (case find (\<lambda>a. idB (s ! a) = the currentId) bones of Some a \<Rightarrow> parentId (s ! a) | None \<Rightarrow> None)
          (depth + 1) (chain @ [the currentId])"
      by (subst buildChain.simps) (simp add: Let_def)
    moreover have "length (buildChain s bones
          (case find (\<lambda>a. idB (s ! a) = the currentId) bones of Some a \<Rightarrow> parentId (s ! a) | None \<Rightarrow> None)
          (depth + 1) (chain @ [the currentId])) \<le> length (chain @ [the currentId]) + (4 - (depth + 1))"
      using "1.IH"[OF True refl refl refl] .
    moreover have "length (chain @ [the currentId]) + (4 - (depth + 1)) = length chain + (4 - depth)"
      using True by auto
    ultimately show ?thesis by (simp only:)
  next
    case False
    then have "buildChain s bones currentId depth chain = chain"
      by (subst buildChain.simps) auto
    then show ?thesis by simp
  qed
qed

lemma ikFrame_init:
  "\<forall>a\<in>set bones. a < length s \<Longrightarrow> ikFrame s bones chain bones s"
  by (simp add: ikFrame_def)

lemma ikFrame_drivers:
  assumes f: "ikFrame s bones chain nb st" and nd: "\<forall>a\<in>set bones. drivers (s ! a) = []"
  shows "\<forall>a\<in>set nb. drivers (st ! a) = []"
proof
  fix a assume "a \<in> set nb"
  then obtain i where i: "i < length nb" and a: "a = nb ! i" by (metis in_set_conv_nth)
  from f i have il: "i < length bones"
    and e: "st ! (nb ! i) = (s ! (bones ! i))\<lparr>rotation := rotation (st ! (nb ! i))\<rparr>"
    by (simp_all add: ikFrame_def)
  have "drivers ((s ! (bones ! i))\<lparr>rotation := rotation (st ! (nb ! i))\<rparr>) = drivers (s ! (bones ! i))"
    by simp
  with e have "drivers (st ! (nb ! i)) = drivers (s ! (bones ! i))" by simp
  with nd il a show "drivers (st ! a) = []" by simp
qed

lemma ikStep_frame:
  assumes f: "ikFrame s bones chain nb st" and nd: "\<forall>a\<in>set bones. drivers (s ! a) = []"
    and c: "cid \<in> set chain" and run: "ikStep n eff tgt cid nb st = (Some nb', st')"
  shows "ikFrame s bones chain nb' st'"
proof -
  have ev: "evaluateDrivers st nb = (nb, st)"
    using ikFrame_drivers[OF f nd] by (rule evaluateDrivers_no_drivers)
  then have sn: "snd (calculateFK n st nb) = st" by (simp add: calculateFK_snd)
  obtain r where fk: "calculateFK n st nb = (r, st)" using sn by (cases "calculateFK n st nb") simp
  from run fk obtain ds where r: "r = Some ds" by (cases r) (simp_all add: ikStep_def)
  consider (same) "nb' = nb" "st' = st"
    | (moved) angleDiff where "array_map
         (\<lambda>b. if idB b = cid \<and> locked b \<noteq> Some True
              then Some (b\<lparr>rotation := limitRotation (constraints b) (rotation b + angleDiff)\<rparr>)
              else None) nb st = (nb', st')"
    using run unfolding ikStep_def fk r
    by (auto simp: Let_def split: option.splits prod.splits)
  then show ?thesis
  proof cases
    case same
    with f show ?thesis by simp
  next
    case moved
    let ?f = "\<lambda>b. if idB b = cid \<and> locked b \<noteq> Some True
              then Some (b\<lparr>rotation := limitRotation (constraints b) (rotation b + angleDiff)\<rparr>)
              else None"
    from f have wf: "\<forall>a\<in>set nb. a < length st" and ln: "length nb = length bones"
      and ls: "length s \<le> length st" and old: "\<forall>a<length s. st ! a = s ! a"
      by (simp_all add: ikFrame_def)
    from array_map_spec[OF wf moved] have l': "length nb' = length nb"
      and ls': "length st \<le> length st'" and old': "\<forall>a<length st. st' ! a = st ! a"
      and wf': "\<forall>a\<in>set nb'. a < length st'"
      and v: "map ((!) st') nb' = map (\<lambda>a. case ?f (st ! a) of None \<Rightarrow> st ! a | Some b' \<Rightarrow> b') nb"
      by simp_all
    have each: "st' ! (nb' ! i) = (s ! (bones ! i))\<lparr>rotation := rotation (st' ! (nb' ! i))\<rparr> \<and>
         (rotation (st' ! (nb' ! i)) \<noteq> rotation (s ! (bones ! i)) \<longrightarrow>
            idB (s ! (bones ! i)) \<in> set chain \<and> locked (s ! (bones ! i)) \<noteq> Some True)"
      if i: "i < length bones" for i
    proof -
      from f i have e: "st ! (nb ! i) = (s ! (bones ! i))\<lparr>rotation := rotation (st ! (nb ! i))\<rparr>"
        and ch: "rotation (st ! (nb ! i)) \<noteq> rotation (s ! (bones ! i)) \<longrightarrow>
            idB (s ! (bones ! i)) \<in> set chain \<and> locked (s ! (bones ! i)) \<noteq> Some True"
        by (simp_all add: ikFrame_def)
      have "map ((!) st') nb' ! i = map (\<lambda>a. case ?f (st ! a) of None \<Rightarrow> st ! a | Some b' \<Rightarrow> b') nb ! i"
        by (simp only: v)
      then have vi: "st' ! (nb' ! i) = (case ?f (st ! (nb ! i)) of None \<Rightarrow> st ! (nb ! i) | Some b' \<Rightarrow> b')"
        using i ln l' by simp
      have ie: "idB (st ! (nb ! i)) = idB (s ! (bones ! i))" "locked (st ! (nb ! i)) = locked (s ! (bones ! i))"
        by (subst e, simp)+
      show ?thesis
      proof (cases "idB (st ! (nb ! i)) = cid \<and> locked (st ! (nb ! i)) \<noteq> Some True")
        case True
        then have "st' ! (nb' ! i) = (st ! (nb ! i))\<lparr>rotation :=
            limitRotation (constraints (st ! (nb ! i))) (rotation (st ! (nb ! i)) + angleDiff)\<rparr>"
          using vi by simp
        then have "st' ! (nb' ! i) = (s ! (bones ! i))\<lparr>rotation :=
            limitRotation (constraints (st ! (nb ! i))) (rotation (st ! (nb ! i)) + angleDiff)\<rparr>"
          by (subst (asm) e) simp
        then have "st' ! (nb' ! i) = (s ! (bones ! i))\<lparr>rotation := rotation (st' ! (nb' ! i))\<rparr>"
          by simp
        moreover have "idB (s ! (bones ! i)) \<in> set chain \<and> locked (s ! (bones ! i)) \<noteq> Some True"
          using True ie c by simp
        ultimately show ?thesis by blast
      next
        case False
        then have "st' ! (nb' ! i) = st ! (nb ! i)" using vi by auto
        with e ch show ?thesis by simp
      qed
    qed
    have "\<forall>a<length s. st' ! a = s ! a" using old old' ls by simp
    moreover have "length s \<le> length st'" using ls ls' by simp
    moreover have "length nb' = length bones" using l' ln by simp
    ultimately show ?thesis unfolding ikFrame_def using wf' each by blast
  qed
qed

lemma forChain_frame:
  "ikFrame s bones chain nb st \<Longrightarrow> \<forall>a\<in>set bones. drivers (s ! a) = [] \<Longrightarrow> set cs \<subseteq> set chain
     \<Longrightarrow> forChain n eff tgt cs nb st = (Some nb', st') \<Longrightarrow> ikFrame s bones chain nb' st'"
proof (induction cs arbitrary: nb st)
  case Nil
  then show ?case by simp
next
  case (Cons cid cs)
  from Cons.prems(4) obtain nb1 st1 where step: "ikStep n eff tgt cid nb st = (Some nb1, st1)"
    and rest: "forChain n eff tgt cs nb1 st1 = (Some nb', st')"
    by (auto split: prod.splits option.splits)
  have "cid \<in> set chain" using Cons.prems(3) by simp
  from ikStep_frame[OF Cons.prems(1,2) this step] have "ikFrame s bones chain nb1 st1" .
  moreover have "set cs \<subseteq> set chain" using Cons.prems(3) by simp
  ultimately show ?case using Cons.IH Cons.prems(2) rest by blast
qed

lemma forIterations_frame:
  "ikFrame s bones chain nb st \<Longrightarrow> \<forall>a\<in>set bones. drivers (s ! a) = []
     \<Longrightarrow> forIterations n eff tgt chain i nb st = (Some nb', st') \<Longrightarrow> ikFrame s bones chain nb' st'"
proof (induction "10 - i" arbitrary: i nb st)
  case 0
  then have "\<not> i < 10" by simp
  with "0.prems"(3) have "nb' = nb" "st' = st" by (simp_all add: forIterations.simps)
  with "0.prems"(1) show ?case by simp
next
  case (Suc d)
  then have i: "i < 10" "d = 10 - (i + 1)" by simp_all
  from Suc.prems(3) i(1) obtain nb1 st1 where
    fc: "forChain n eff tgt chain nb st = (Some nb1, st1)"
    and rest: "forIterations n eff tgt chain (i + 1) nb1 st1 = (Some nb', st')"
    by (subst (asm) forIterations.simps) (auto split: prod.splits option.splits)
  from forChain_frame[OF Suc.prems(1,2) subset_refl fc] have "ikFrame s bones chain nb1 st1" .
  from Suc.hyps(1)[OF i(2) this Suc.prems(2) rest] show ?case .
qed

lemma solveIK_frame:
  assumes wf: "\<forall>a\<in>set bones. a < length s" and nd: "\<forall>a\<in>set bones. drivers (s ! a) = []"
    and run: "solveIK n s bones eff tgt = (Some nb, st)"
  shows "ikFrame s bones (buildChain s bones (Some eff) 0 []) nb st \<and>
         length (buildChain s bones (Some eff) 0 []) \<le> 4"
proof -
  from run have "forIterations n eff tgt (buildChain s bones (Some eff) 0 []) 0 bones s = (Some nb, st)"
    by (simp add: solveIK_def Let_def)
  from forIterations_frame[OF ikFrame_init[OF wf] nd this]
  have "ikFrame s bones (buildChain s bones (Some eff) 0 []) nb st" .
  moreover have "length (buildChain s bones (Some eff) 0 []) \<le> 4"
    using buildChain_length[of s bones "Some eff" 0 "[]"] by simp
  ultimately show ?thesis by blast
qed

subsection \<open>Unfolding calculateFK on an example\<close>

lemmas fk_defs = calculateFK_def evaluateDrivers_def driverPass_def driveBone_def applyDriver_def
  deriveBone_def limitRotation_def constrainRotation_def normalizeRotation_def degToRad_def
  Bone.defs DerivedBone.defs Let_def

section \<open>The claims\<close>

subsection \<open>C1: the composition equations of calculateFK\<close>

text \<open>
  C1. Whenever \<^verbatim>\<open>calculateFK\<close> returns, every derived bone \<open>d\<close> of its output comes from
  a bone \<open>b\<close> of the driven array with the same id, and: its rotation is the constrained
  local rotation of \<open>b\<close>; for a root, \<open>worldStart = (b.x, b.y)\<close> and \<open>worldRotation\<close> is
  \<open>0\<close> plus that rotation; for a bone with a parent id, some derived bone \<open>p\<close> of the output
  has that id, \<open>worldStart = p.worldEnd\<close> and \<open>worldRotation = p.worldRotation\<close> plus that
  rotation; and \<open>worldEnd = worldStart + length * (cos, sin)\<close> of \<open>worldRotation\<close> in
  radians. On the two-bone chain the output is exactly \<open>chain2_fk\<close>: the root ends at
  \<open>(10, 0)\<close>, the child starts there, has world rotation 90 and ends at \<open>(10, 5)\<close>.
\<close>

theorem C1_fk_composition:
  "(fst (calculateFK n s bones) = Some ds \<and> d \<in> set ds \<longrightarrow>
      (\<exists>b\<in>set (map ((!) (snd (calculateFK n s bones))) bones).
           idB d = idB b \<and>
           rotation d = limitRotation (constraints b) (rotation b) \<and>
           (case parentId b of
              None \<Rightarrow> worldStart d = \<lparr>xV = xB b, yV = yB b\<rparr> \<and> worldRotation d = 0 + rotation d
            | Some pid \<Rightarrow> \<exists>p\<in>set ds. idB p = pid \<and> worldStart d = worldEnd p \<and>
                           worldRotation d = worldRotation p + rotation d) \<and>
           worldEnd d = \<lparr>xV = xV (worldStart d) + cos (degToRad (worldRotation d)) * lengthB b,
                          yV = yV (worldStart d) + sin (degToRad (worldRotation d)) * lengthB b\<rparr>))
   \<and> calculateFK 2 chain2 [0, 1] = (Some chain2_fk, chain2)"
proof
  show "fst (calculateFK n s bones) = Some ds \<and> d \<in> set ds \<longrightarrow>
      (\<exists>b\<in>set (map ((!) (snd (calculateFK n s bones))) bones).
           idB d = idB b \<and>
           rotation d = limitRotation (constraints b) (rotation b) \<and>
           (case parentId b of
              None \<Rightarrow> worldStart d = \<lparr>xV = xB b, yV = yB b\<rparr> \<and> worldRotation d = 0 + rotation d
            | Some pid \<Rightarrow> \<exists>p\<in>set ds. idB p = pid \<and> worldStart d = worldEnd p \<and>
                           worldRotation d = worldRotation p + rotation d) \<and>
           worldEnd d = \<lparr>xV = xV (worldStart d) + cos (degToRad (worldRotation d)) * lengthB b,
                          yV = yV (worldStart d) + sin (degToRad (worldRotation d)) * lengthB b\<rparr>)"
    using calculateFK_equations by blast
  show "calculateFK 2 chain2 [0, 1] = (Some chain2_fk, chain2)"
    by (simp add: fk_defs chain2_def chain2_fk_def mkBone_def numeral_2_eq_2)
qed

theorem C1_witness:
  "fst (calculateFK 2 chain2 [0, 1]) = Some chain2_fk \<and> chain2_fk ! 1 \<in> set chain2_fk \<and>
   (\<exists>b\<in>set (map ((!) (snd (calculateFK 2 chain2 [0, 1]))) [0, 1]).
      idB (chain2_fk ! 1) = idB b \<and>
      rotation (chain2_fk ! 1) = limitRotation (constraints b) (rotation b) \<and>
      (case parentId b of
         None \<Rightarrow> worldStart (chain2_fk ! 1) = \<lparr>xV = xB b, yV = yB b\<rparr> \<and>
                  worldRotation (chain2_fk ! 1) = 0 + rotation (chain2_fk ! 1)
       | Some pid \<Rightarrow> \<exists>p\<in>set chain2_fk. idB p = pid \<and> worldStart (chain2_fk ! 1) = worldEnd p \<and>
                      worldRotation (chain2_fk ! 1) = worldRotation p + rotation (chain2_fk ! 1)) \<and>
      worldEnd (chain2_fk ! 1) =
        \<lparr>xV = xV (worldStart (chain2_fk ! 1)) + cos (degToRad (worldRotation (chain2_fk ! 1))) * lengthB b,
         yV = yV (worldStart (chain2_fk ! 1)) + sin (degToRad (worldRotation (chain2_fk ! 1))) * lengthB b\<rparr>)"
proof -
  note t = C1_fk_composition[of 2 chain2 "[0, 1]" chain2_fk "chain2_fk ! 1"]
  from t have e: "calculateFK 2 chain2 [0, 1] = (Some chain2_fk, chain2)" by (rule conjunct2)
  then have f: "fst (calculateFK 2 chain2 [0, 1]) = Some chain2_fk" by simp
  have m: "chain2_fk ! 1 \<in> set chain2_fk" by (simp add: chain2_fk_def)
  from t[THEN conjunct1, THEN mp, OF conjI[OF f m]] f m show ?thesis by (intro conjI)
qed

subsection \<open>C2: the rotation clamp on 200 with the limit [-10, 130]\<close>

text \<open>
  C2. With \<^verbatim>\<open>LIMIT_ROTATION{min: -10, max: 130}\<close> and the raw local rotation 200, the first
  loop of \<^verbatim>\<open>constrainRotation\<close> takes 200 to -160, the normalised value is -160, and the
  clamp returns -10; so any bone whose first \<^verbatim>\<open>LIMIT_ROTATION\<close> constraint has these bounds
  and whose rotation is 200 gets the derived local rotation -10 in \<^verbatim>\<open>processBone\<close>, and
  \<^verbatim>\<open>calculateFK\<close> on the one-bone rig returns it with rotation -10.
\<close>

theorem C2_clamp_200:
  "while_sub360 200 = - 160 \<and> normalizeRotation 200 = - 160 \<and>
   constrainRotation 200 (Some (- 10)) (Some 130) = - 10 \<and>
   (find (\<lambda>c. typeC c = LIMIT_ROTATION) (constraints bone) = Some limit \<and>
    minC limit = Some (- 10) \<and> maxC limit = Some 130 \<and> rotation bone = 200
      \<longrightarrow> rotation (deriveBone bone parent) = - 10) \<and>
   map_option (map rotation) (fst (calculateFK 1 elbowRig [0])) = Some [- 10]"
proof -
  have a: "while_sub360 200 = - 160" by (simp add: while_sub360.simps)
  have b: "normalizeRotation 200 = - 160"
    by (simp add: normalizeRotation_def while_sub360.simps while_add360.simps)
  have c: "constrainRotation 200 (Some (- 10)) (Some 130) = - 10"
    by (simp add: constrainRotation_def b)
  have d: "find (\<lambda>c. typeC c = LIMIT_ROTATION) (constraints bone) = Some limit \<and>
    minC limit = Some (- 10) \<and> maxC limit = Some 130 \<and> rotation bone = 200
      \<longrightarrow> rotation (deriveBone bone parent) = - 10"
    by (simp add: deriveBone_fields limitRotation_def c)
  have e: "map_option (map rotation) (fst (calculateFK 1 elbowRig [0])) = Some [- 10]"
    by (simp add: fk_defs elbowRig_def limit130_def mkBone_def while_sub360.simps
        while_add360.simps)
  from a b c d e show ?thesis by blast
qed

theorem C2_witness:
  "find (\<lambda>c. typeC c = LIMIT_ROTATION) (constraints (elbowRig ! 0)) = Some limit130 \<and>
   minC limit130 = Some (- 10) \<and> maxC limit130 = Some 130 \<and> rotation (elbowRig ! 0) = 200 \<and>
   rotation (deriveBone (elbowRig ! 0) None) = - 10"
  using C2_clamp_200[of "elbowRig ! 0" limit130 None]
  by (simp add: elbowRig_def limit130_def mkBone_def)

subsection \<open>C3: getInterpolatedValue\<close>

text \<open>
  C3. \<^verbatim>\<open>getInterpolatedValue\<close> returns \<^verbatim>\<open>null\<close> exactly when the track has no keyframes.
  For a track with at least one keyframe and at most one keyframe per time (the invariant
  of the data model), with \<open>keys\<close> the keyframes sorted by time: the first of \<open>keys\<close>
  is a keyframe of the track of least time, and a frame at or before its time gives its
  value; the last of \<open>keys\<close> is one of greatest time, and a frame at or after its time
  gives its value; and a frame with \<open>k1.time \<le> frame < k2.time\<close> for two adjacent
  keys \<open>k1\<close>, \<open>k2\<close> gives \<open>k1.value + (k2.value - k1.value) * ease(k1.easing, (frame -
  k1.time) / (k2.time - k1.time))\<close>. On the track with keyframes at 0 (value 10) and 10
  (value 20): -5 gives 10, 15 gives 20, and 5 gives 15.
\<close>

theorem C3_interpolation:
  "(getInterpolatedValue track frame = None \<longleftrightarrow> keyframes track = []) \<and>
   (keyframes track \<noteq> [] \<and> distinct (map time (keyframes track)) \<longrightarrow>
      (let keys = sort_key time (keyframes track) in
         hd keys \<in> set (keyframes track) \<and>
         (\<forall>k\<in>set (keyframes track). time (hd keys) \<le> time k) \<and>
         (frame \<le> time (hd keys) \<longrightarrow> getInterpolatedValue track frame = Some (valueK (hd keys))) \<and>
         last keys \<in> set (keyframes track) \<and>
         (\<forall>k\<in>set (keyframes track). time k \<le> time (last keys)) \<and>
         (time (last keys) \<le> frame \<longrightarrow> getInterpolatedValue track frame = Some (valueK (last keys))) \<and>
         (\<forall>i. i + 1 < length keys \<and> time (keys ! i) \<le> frame \<and> frame < time (keys ! (i + 1)) \<longrightarrow>
            getInterpolatedValue track frame =
              Some (valueK (keys ! i) + (valueK (keys ! (i + 1)) - valueK (keys ! i)) *
                    getEasing (easing (keys ! i))
                      ((frame - time (keys ! i)) / (time (keys ! (i + 1)) - time (keys ! i))))))) \<and>
   getInterpolatedValue track10 (- 5) = Some 10 \<and>
   getInterpolatedValue track10 15 = Some 20 \<and>
   getInterpolatedValue track10 5 = Some 15"
proof -
  have a: "getInterpolatedValue track frame = None \<longleftrightarrow> keyframes track = []"
    by (rule getInterpolatedValue_None)
  have b: "keyframes track \<noteq> [] \<and> distinct (map time (keyframes track)) \<longrightarrow>
      (let keys = sort_key time (keyframes track) in
         hd keys \<in> set (keyframes track) \<and>
         (\<forall>k\<in>set (keyframes track). time (hd keys) \<le> time k) \<and>
         (frame \<le> time (hd keys) \<longrightarrow> getInterpolatedValue track frame = Some (valueK (hd keys))) \<and>
         last keys \<in> set (keyframes track) \<and>
         (\<forall>k\<in>set (keyframes track). time k \<le> time (last keys)) \<and>
         (time (last keys) \<le> frame \<longrightarrow> getInterpolatedValue track frame = Some (valueK (last keys))) \<and>
         (\<forall>i. i + 1 < length keys \<and> time (keys ! i) \<le> frame \<and> frame < time (keys ! (i + 1)) \<longrightarrow>
            getInterpolatedValue track frame =
              Some (valueK (keys ! i) + (valueK (keys ! (i + 1)) - valueK (keys ! i)) *
                    getEasing (easing (keys ! i))
                      ((frame - time (keys ! i)) / (time (keys ! (i + 1)) - time (keys ! i))))))"
  proof
    assume h: "keyframes track \<noteq> [] \<and> distinct (map time (keyframes track))"
    then have ne: "keyframes track \<noteq> []" and d: "distinct (map time (keyframes track))" by simp_all
    note m1 = sort_key_hd_min[OF ne] and m2 = sort_key_last_max[OF ne]
    have f: "frame \<le> time (hd (sort_key time (keyframes track))) \<longrightarrow>
        getInterpolatedValue track frame = Some (valueK (hd (sort_key time (keyframes track))))"
      using getInterpolatedValue_first[OF ne] by blast
    have l: "time (last (sort_key time (keyframes track))) \<le> frame \<longrightarrow>
        getInterpolatedValue track frame = Some (valueK (last (sort_key time (keyframes track))))"
      using getInterpolatedValue_last[OF ne d] by blast
    have bt: "\<forall>i. i + 1 < length (sort_key time (keyframes track)) \<and>
        time (sort_key time (keyframes track) ! i) \<le> frame \<and>
        frame < time (sort_key time (keyframes track) ! (i + 1)) \<longrightarrow>
        getInterpolatedValue track frame =
          Some (valueK (sort_key time (keyframes track) ! i) +
                (valueK (sort_key time (keyframes track) ! (i + 1)) -
                 valueK (sort_key time (keyframes track) ! i)) *
                getEasing (easing (sort_key time (keyframes track) ! i))
                  ((frame - time (sort_key time (keyframes track) ! i)) /
                   (time (sort_key time (keyframes track) ! (i + 1)) -
                    time (sort_key time (keyframes track) ! i))))"
      using getInterpolatedValue_between[OF ne d] by blast
    from m1 m2 f l bt show "let keys = sort_key time (keyframes track) in
         hd keys \<in> set (keyframes track) \<and>
         (\<forall>k\<in>set (keyframes track). time (hd keys) \<le> time k) \<and>
         (frame \<le> time (hd keys) \<longrightarrow> getInterpolatedValue track frame = Some (valueK (hd keys))) \<and>
         last keys \<in> set (keyframes track) \<and>
         (\<forall>k\<in>set (keyframes track). time k \<le> time (last keys)) \<and>
         (time (last keys) \<le> frame \<longrightarrow> getInterpolatedValue track frame = Some (valueK (last keys))) \<and>
         (\<forall>i. i + 1 < length keys \<and> time (keys ! i) \<le> frame \<and> frame < time (keys ! (i + 1)) \<longrightarrow>
            getInterpolatedValue track frame =
              Some (valueK (keys ! i) + (valueK (keys ! (i + 1)) - valueK (keys ! i)) *
                    getEasing (easing (keys ! i))
                      ((frame - time (keys ! i)) / (time (keys ! (i + 1)) - time (keys ! i)))))"
      unfolding Let_def by (intro conjI) blast+
  qed
  have c1: "getInterpolatedValue track10 (- 5) = Some 10"
    by (simp add: getInterpolatedValue_def track10_def Let_def)
  have c2: "getInterpolatedValue track10 15 = Some 20"
    by (simp add: getInterpolatedValue_def track10_def Let_def)
  have c3: "getInterpolatedValue track10 5 = Some 15"
    by (simp add: getInterpolatedValue_def track10_def Let_def interpLoop.simps getEasing_def
        easeLinear_def)
  from a b c1 c2 c3 show ?thesis by (intro conjI)
qed

theorem C3_witness:
  "keyframes track10 \<noteq> [] \<and> distinct (map time (keyframes track10)) \<and>
   (0::nat) + 1 < length (sort_key time (keyframes track10)) \<and>
   time (sort_key time (keyframes track10) ! 0) \<le> 5 \<and>
   5 < time (sort_key time (keyframes track10) ! (0 + 1)) \<and>
   getInterpolatedValue track10 5 =
     Some (valueK (sort_key time (keyframes track10) ! 0) +
           (valueK (sort_key time (keyframes track10) ! (0 + 1)) -
            valueK (sort_key time (keyframes track10) ! 0)) *
           getEasing (easing (sort_key time (keyframes track10) ! 0))
             ((5 - time (sort_key time (keyframes track10) ! 0)) /
              (time (sort_key time (keyframes track10) ! (0 + 1)) -
               time (sort_key time (keyframes track10) ! 0)))) \<and>
   getInterpolatedValue track10 5 = Some 15"
proof -
  note t = C3_interpolation[of track10 5]
  have h: "keyframes track10 \<noteq> [] \<and> distinct (map time (keyframes track10))"
    by (simp add: track10_def)
  have i: "(0::nat) + 1 < length (sort_key time (keyframes track10)) \<and>
      time (sort_key time (keyframes track10) ! 0) \<le> 5 \<and>
      5 < time (sort_key time (keyframes track10) ! (0 + 1))"
    by (simp add: track10_def)
  from t have "keyframes track10 \<noteq> [] \<and> distinct (map time (keyframes track10)) \<longrightarrow>
      (let keys = sort_key time (keyframes track10) in
         hd keys \<in> set (keyframes track10) \<and>
         (\<forall>k\<in>set (keyframes track10). time (hd keys) \<le> time k) \<and>
         (5 \<le> time (hd keys) \<longrightarrow> getInterpolatedValue track10 5 = Some (valueK (hd keys))) \<and>
         last keys \<in> set (keyframes track10) \<and>
         (\<forall>k\<in>set (keyframes track10). time k \<le> time (last keys)) \<and>
         (time (last keys) \<le> 5 \<longrightarrow> getInterpolatedValue track10 5 = Some (valueK (last keys))) \<and>
         (\<forall>i. i + 1 < length keys \<and> time (keys ! i) \<le> 5 \<and> 5 < time (keys ! (i + 1)) \<longrightarrow>
            getInterpolatedValue track10 5 =
              Some (valueK (keys ! i) + (valueK (keys ! (i + 1)) - valueK (keys ! i)) *
                    getEasing (easing (keys ! i))
                      ((5 - time (keys ! i)) / (time (keys ! (i + 1)) - time (keys ! i))))))"
    by (elim conjE)
  from this[THEN mp, OF h, unfolded Let_def]
  have "\<forall>i. i + 1 < length (sort_key time (keyframes track10)) \<and>
      time (sort_key time (keyframes track10) ! i) \<le> 5 \<and>
      5 < time (sort_key time (keyframes track10) ! (i + 1)) \<longrightarrow>
      getInterpolatedValue track10 5 =
        Some (valueK (sort_key time (keyframes track10) ! i) +
              (valueK (sort_key time (keyframes track10) ! (i + 1)) -
               valueK (sort_key time (keyframes track10) ! i)) *
              getEasing (easing (sort_key time (keyframes track10) ! i))
                ((5 - time (sort_key time (keyframes track10) ! i)) /
                 (time (sort_key time (keyframes track10) ! (i + 1)) -
                  time (sort_key time (keyframes track10) ! i))))"
    by (elim conjE)
  from this[THEN spec, of 0, THEN mp, OF i]
  have v: "getInterpolatedValue track10 5 =
     Some (valueK (sort_key time (keyframes track10) ! 0) +
           (valueK (sort_key time (keyframes track10) ! (0 + 1)) -
            valueK (sort_key time (keyframes track10) ! 0)) *
           getEasing (easing (sort_key time (keyframes track10) ! 0))
             ((5 - time (sort_key time (keyframes track10) ! 0)) /
              (time (sort_key time (keyframes track10) ! (0 + 1)) -
               time (sort_key time (keyframes track10) ! 0))))" .
  from t have w: "getInterpolatedValue track10 5 = Some 15" by (elim conjE)
  from h i v w show ?thesis by (intro conjI) (elim conjE, assumption)+
qed

subsection \<open>C4: what solveIK changes\<close>

text \<open>
  C4 fails on the code, by the same assignment as in C6: every step of \<^verbatim>\<open>solveIK\<close> calls
  \<^verbatim>\<open>calculateFK\<close> on the working array, whose first elements are the objects of the input,
  and \<^verbatim>\<open>calculateFK\<close> calls \<^verbatim>\<open>evaluateDrivers\<close> on them. On the example rig, with the
  effector \<^verbatim>\<open>e\<close> and a target on its axis, the chain is \<^verbatim>\<open>[e]\<close> alone; the returned array is
  a new object for \<^verbatim>\<open>e\<close> and the input object \<^verbatim>\<open>b\<close>, and \<^verbatim>\<open>b\<close>, which is not on the chain
  and had rotation 0, has rotation 10. (On an array whose bones carry no driver the claim
  holds: lemma \<open>solveIK_frame\<close>.)
\<close>

theorem C4_ik_changes_driven_bone:
  "buildChain ikRig [0, 1] (Some ''e'') 0 [] = [''e''] \<and>
   fst (solveIK 2 ikRig [0, 1] ''e'' ikTarget) = Some [11, 1] \<and>
   idB (snd (solveIK 2 ikRig [0, 1] ''e'' ikTarget) ! 1) = ''b'' \<and>
   rotation (ikRig ! 1) = 0 \<and>
   rotation (snd (solveIK 2 ikRig [0, 1] ''e'' ikTarget) ! 1) = 10"
  unfolding ikRig_solve ikRig_chain by (simp add: ikRig_def mkBone_def)

subsection \<open>C5: two calls of calculateFK on the same array\<close>

text \<open>
  C5 fails on the code, by the same assignment as in C6: \<^verbatim>\<open>calculateFK\<close> calls
  \<^verbatim>\<open>evaluateDrivers\<close> on its input, so the first call changes the bones, and the second
  call starts from the changed bones. On the driver chain of three links the first call
  leaves \<^verbatim>\<open>A\<close> at x = 0 (two passes do not reach it) and moves \<^verbatim>\<open>B\<close> and \<^verbatim>\<open>C\<close> to
  x = 7 in the input itself; the second call on the same array then moves \<^verbatim>\<open>A\<close> to
  x = 7: the two outputs differ in the world start of \<^verbatim>\<open>A\<close>.
\<close>

theorem C5_second_call_differs:
  "map xB driverChain = [0, 0, 0, 7] \<and>
   map xB (snd (calculateFK 4 driverChain [0, 1, 2, 3])) = [0, 7, 7, 7] \<and>
   map_option (map (\<lambda>d. xV (worldStart d))) (fst (calculateFK 4 driverChain [0, 1, 2, 3]))
     = Some [0, 7, 7, 7] \<and>
   map_option (map (\<lambda>d. xV (worldStart d)))
       (fst (calculateFK 4 (snd (calculateFK 4 driverChain [0, 1, 2, 3])) [0, 1, 2, 3]))
     = Some [7, 7, 7, 7] \<and>
   fst (calculateFK 4 (snd (calculateFK 4 driverChain [0, 1, 2, 3])) [0, 1, 2, 3])
     \<noteq> fst (calculateFK 4 driverChain [0, 1, 2, 3])"
proof -
  have s1: "snd (calculateFK 4 driverChain [0, 1, 2, 3]) =
      [mkBone ''A'' None 10 0 0 0 [] [copyX ''B''],
       mkBone ''B'' None 10 0 7 0 [] [copyX ''C''],
       mkBone ''C'' None 10 0 7 0 [] [copyX ''D''],
       mkBone ''D'' None 10 0 7 0 [] []]"
    by (simp add: calculateFK_snd evaluateDrivers_def driverPass_def driveBone_def applyDriver_def
        Let_def driverChain_def copyX_def mkBone_def)
  have a: "map xB driverChain = [0, 0, 0, 7]" by (simp add: driverChain_def mkBone_def)
  have b: "map xB (snd (calculateFK 4 driverChain [0, 1, 2, 3])) = [0, 7, 7, 7]"
    unfolding s1 by (simp add: mkBone_def)
  have c: "map_option (map (\<lambda>d. xV (worldStart d))) (fst (calculateFK 4 driverChain [0, 1, 2, 3]))
     = Some [0, 7, 7, 7]"
    by (simp add: fk_defs driverChain_def copyX_def mkBone_def eval_nat_numeral)
  have d: "map_option (map (\<lambda>d. xV (worldStart d)))
       (fst (calculateFK 4 (snd (calculateFK 4 driverChain [0, 1, 2, 3])) [0, 1, 2, 3]))
     = Some [7, 7, 7, 7]"
    unfolding s1 by (simp add: fk_defs copyX_def mkBone_def eval_nat_numeral)
  have e: "fst (calculateFK 4 (snd (calculateFK 4 driverChain [0, 1, 2, 3])) [0, 1, 2, 3])
     \<noteq> fst (calculateFK 4 driverChain [0, 1, 2, 3])"
  proof
    assume "fst (calculateFK 4 (snd (calculateFK 4 driverChain [0, 1, 2, 3])) [0, 1, 2, 3])
      = fst (calculateFK 4 driverChain [0, 1, 2, 3])"
    with d have "map_option (map (\<lambda>d. xV (worldStart d))) (fst (calculateFK 4 driverChain [0, 1, 2, 3]))
      = Some [7, 7, 7, 7]" by (simp only:)
    with c have "Some [0, 7, 7, 7 :: real] = Some [7, 7, 7, 7]" by (simp only:)
    then show False by simp
  qed
  from a b c d e show ?thesis by (intro conjI)
qed

subsection \<open>C6: evaluateDrivers writes to the bones of its input\<close>

text \<open>
  C6 fails on the code. The array that \<^verbatim>\<open>evaluateDrivers\<close> returns holds the objects of
  the input array, and the driven values are assigned to those objects: on the rig with
  \<^verbatim>\<open>a.rotation = 20\<close> and the driver \<^verbatim>\<open>rotation = a.rotation * 0.5 + 10\<close> on \<^verbatim>\<open>b\<close>, the
  returned array has the addresses of the input, and the input object \<^verbatim>\<open>b\<close>, whose
  rotation was 0, has rotation 20 after the call.
\<close>

theorem C6_input_mutated:
  "fst (evaluateDrivers drivenRig [0, 1]) = [0, 1] \<and>
   rotation (drivenRig ! 1) = 0 \<and>
   rotation (snd (evaluateDrivers drivenRig [0, 1]) ! 1) = 20 \<and>
   snd (evaluateDrivers drivenRig [0, 1]) = [drivenRig ! 0, (drivenRig ! 1)\<lparr>rotation := 20\<rparr>] \<and>
   snd (evaluateDrivers drivenRig [0, 1]) \<noteq> drivenRig"
  by (simp add: evaluateDrivers_def driverPass_def driveBone_def applyDriver_def Let_def
      drivenRig_def halfDriver_def mkBone_def)

subsection \<open>C7: evaluateDrivers and the locked flag\<close>

text \<open>
  C7, as stated: a locked bone keeps its input rotation whatever drivers it carries. It
  does not: \<^verbatim>\<open>evaluateDrivers\<close> never reads \<^verbatim>\<open>locked\<close>. The locked bone \<^verbatim>\<open>b\<close> with
  rotation 0 and the driver \<^verbatim>\<open>rotation = a.rotation * 0.5 + 10\<close>, where \<^verbatim>\<open>a.rotation = 20\<close>,
  has rotation 20 afterwards.
\<close>

theorem C7_counterexample:
  "locked (lockedRig ! 1) = Some True \<and> rotation (lockedRig ! 1) = 0 \<and>
   rotation (snd (evaluateDrivers lockedRig [0, 1]) ! 1) = 20 \<and>
   rotation (snd (evaluateDrivers lockedRig [0, 1]) ! 1) \<noteq> rotation (lockedRig ! 1)"
  by (simp add: evaluateDrivers_def driverPass_def driveBone_def applyDriver_def Let_def
      lockedRig_def halfDriver_def mkBone_def)

text \<open>
  C7, as amended: \<^verbatim>\<open>evaluateDrivers\<close> does not consult the locked flag. A bone, locked or
  not, none of whose drivers has \<^verbatim>\<open>driverProperty\<close> \<^verbatim>\<open>'rotation'\<close> keeps its input rotation;
  and on two stores that differ only in locked flags, with an array of valid references,
  the rotations after \<^verbatim>\<open>evaluateDrivers\<close> are the same and every flag is as before: a
  driven rotation is written to a locked bone exactly as to an unlocked one.
\<close>

theorem C7_drivers_ignore_locked:
  "((\<forall>d\<in>set (drivers (s ! a)). driverProperty d \<noteq> P_rotation) \<longrightarrow>
      rotation (snd (evaluateDrivers s bones) ! a) = rotation (s ! a)) \<and>
   (sameButLocked s s2 \<and> (\<forall>a\<in>set bones. a < length s) \<longrightarrow>
      (\<forall>a<length s.
         rotation (snd (evaluateDrivers s2 bones) ! a) = rotation (snd (evaluateDrivers s bones) ! a) \<and>
         locked (snd (evaluateDrivers s2 bones) ! a) = locked (s2 ! a) \<and>
         locked (snd (evaluateDrivers s bones) ! a) = locked (s ! a)))"
proof (intro conjI impI allI)
  assume "\<forall>d\<in>set (drivers (s ! a)). driverProperty d \<noteq> P_rotation"
  then show "rotation (snd (evaluateDrivers s bones) ! a) = rotation (s ! a)"
    by (rule evaluateDrivers_rotation)
next
  fix a assume h: "sameButLocked s s2 \<and> (\<forall>a\<in>set bones. a < length s)" and a: "a < length s"
  from h have r: "sameButLocked (snd (evaluateDrivers s bones)) (snd (evaluateDrivers s2 bones))"
    by (intro evaluateDrivers_sameButLocked) simp_all
  have "a < length (snd (evaluateDrivers s bones))" using a by (simp add: evaluateDrivers_length)
  from sameButLocked_nth[OF r this]
  show "rotation (snd (evaluateDrivers s2 bones) ! a) = rotation (snd (evaluateDrivers s bones) ! a)"
    by blast
  show "locked (snd (evaluateDrivers s2 bones) ! a) = locked (s2 ! a)"
    by (rule evaluateDrivers_locked)
  show "locked (snd (evaluateDrivers s bones) ! a) = locked (s ! a)"
    by (rule evaluateDrivers_locked)
qed

theorem C7_witness:
  "list_all (\<lambda>d. driverProperty d \<noteq> P_rotation) (drivers (lockedRig ! 0)) \<and>
   rotation (snd (evaluateDrivers lockedRig [0, 1]) ! 0) = rotation (lockedRig ! 0) \<and>
   sameButLocked drivenRig lockedRig \<and> list_all (\<lambda>a. a < length drivenRig) [0, 1] \<and>
   (1::nat) < length drivenRig \<and>
   rotation (snd (evaluateDrivers lockedRig [0, 1]) ! 1) =
     rotation (snd (evaluateDrivers drivenRig [0, 1]) ! 1) \<and>
   locked (snd (evaluateDrivers lockedRig [0, 1]) ! 1) = Some True"
proof -
  note t = C7_drivers_ignore_locked[of drivenRig 0 "[0, 1]" lockedRig]
  note u = C7_drivers_ignore_locked[of lockedRig 0 "[0, 1]" lockedRig]
  have h1: "\<forall>d\<in>set (drivers (lockedRig ! 0)). driverProperty d \<noteq> P_rotation"
    by (simp add: lockedRig_def mkBone_def)
  have h2: "sameButLocked drivenRig lockedRig"
    by (simp add: sameButLocked_def drivenRig_def lockedRig_def mkBone_def less_Suc_eq)
  have h3: "\<forall>a\<in>set [0, 1]. a < length drivenRig" by (simp add: drivenRig_def)
  have h4: "(1::nat) < length drivenRig" by (simp add: drivenRig_def)
  from u[THEN conjunct1, THEN mp, OF h1]
  have c1: "rotation (snd (evaluateDrivers lockedRig [0, 1]) ! 0) = rotation (lockedRig ! 0)" .
  from t[THEN conjunct2, THEN mp, OF conjI[OF h2 h3], THEN spec, of 1, THEN mp, OF h4]
  have c2: "rotation (snd (evaluateDrivers lockedRig [0, 1]) ! 1) =
      rotation (snd (evaluateDrivers drivenRig [0, 1]) ! 1)"
    and c3: "locked (snd (evaluateDrivers lockedRig [0, 1]) ! 1) = locked (lockedRig ! 1)"
    by blast+
  have "locked (lockedRig ! 1) = Some True" by (simp add: lockedRig_def mkBone_def)
  with c3 have c4: "locked (snd (evaluateDrivers lockedRig [0, 1]) ! 1) = Some True" by simp
  have g1: "list_all (\<lambda>d. driverProperty d \<noteq> P_rotation) (drivers (lockedRig ! 0))"
    using h1 by (simp only: list_all_iff)
  have g3: "list_all (\<lambda>a. a < length drivenRig) [0, 1]" using h3 by (simp only: list_all_iff)
  from g1 c1 h2 g3 h4 c2 c4 show ?thesis by (intro conjI)
qed

subsection \<open>C8: the range of the normalisation\<close>



subsection \<open>C9: applyAnimation and the rotation limits\<close>




subsection \<open>C10: calculateFK returns on arrays with distinct ids\<close>



end
